theory Spec2Isabelle
  imports Main "HOL-Library.Char_ord" "HOL-Library.List_Lexorder" "HOL-Library.Multiset"
begin

section \<open>Data of the asset store (packages/core/core/src/assetUtils.js)\<close>

text \<open>
  JavaScript strings are modelled as \<open>string\<close>. A property that may be absent,
  \<open>undefined\<close> or \<open>null\<close> (Flow's \<open>?:\<close> and \<open>?T\<close>) is an \<open>option\<close>: the source
  tests such properties with \<open>!= null\<close> and \<open>??\<close>, which treat the three alike.
  Functions imported from other packages (\<open>hashString\<close>, \<open>objectSortedEntries\<close>,
  \<open>JSON.stringify\<close>, \<open>hashFile\<close>, \<open>hashFromOption\<close>, \<open>glob\<close>, ...) are parameters
  of the functions that call them. A JSON number is kept as an integer; no function
  below computes with one.
\<close>

type_synonym FilePath = string
type_synonym PackageName = string
type_synonym Symbol = string
type_synonym Glob = string

text \<open>\<open>QueryParameters\<close> is an object with string values: its entries, in property order.\<close>
type_synonym QueryParameters = "(string \<times> string) list"

datatype JSONValue =
    JNull
  | JUndefined
  | JBoolean bool
  | JNumber int
  | JString string
  | JArray "JSONValue list"
  | JObject "(string \<times> JSONValue) list"

type_synonym JSONObject = "(string \<times> JSONValue) list"
type_synonym Meta = JSONObject

datatype BundleBehavior = inline | isolated

record Stats =
  time :: int
  size :: int

record ASTGenerator =
  type :: string
  version :: string

record Position =
  line :: int
  column :: int

record SourceLocation =
  filePath :: string
  start :: Position
  "end" :: Position

record SymbolEntry =
  local :: Symbol
  loc :: "SourceLocation option"
  meta :: "Meta option"

text \<open>
  The core \<open>Environment\<close> and \<open>Dependency\<close> types live in \<open>./types\<close>. Of an
  environment the asset store reads the \<open>id\<close> only; the other fields are those of the
  public interface with plain types. A dependency is never inspected here.
\<close>

record Environment =
  id' :: string
  context' :: string
  outputFormat :: string
  isLibrary :: bool
  shouldOptimize :: bool
  shouldScopeHoist :: bool

typedecl Dependency

record AssetOptions =
  id' :: "string option"
  committed :: "bool option"
  hash :: "string option"
  idBase :: "string option"
  filePath :: FilePath
  query :: "QueryParameters option"
  type :: string
  contentKey :: "string option"
  mapKey :: "string option"
  astKey :: "string option"
  astGenerator :: "ASTGenerator option"
  dependencies :: "(string \<rightharpoonup> Dependency) option"
  bundleBehavior :: "BundleBehavior option"
  isBundleSplittable :: "bool option"
  isSource :: bool
  env :: Environment
  meta :: "Meta option"
  outputHash :: "string option"
  pipeline :: "string option"
  stats :: Stats
  symbols :: "(Symbol \<rightharpoonup> SymbolEntry) option"
  sideEffects :: "bool option"
  uniqueKey :: "string option"
  plugin :: "PackageName option"
  configPath :: "FilePath option"
  configKeyPath :: "string option"

text \<open>The object literal that \<open>createAsset\<close> returns, field by field.\<close>

record Asset =
  id' :: string
  committed :: bool
  hash :: "string option"
  filePath :: FilePath
  query :: "QueryParameters option"
  bundleBehavior :: "nat option"
  isBundleSplittable :: bool
  type :: string
  contentKey :: "string option"
  mapKey :: "string option"
  astKey :: "string option"
  astGenerator :: "ASTGenerator option"
  dependencies :: "string \<rightharpoonup> Dependency"
  isSource :: bool
  outputHash :: "string option"
  pipeline :: "string option"
  env :: Environment
  meta :: Meta
  stats :: Stats
  symbols :: "(Symbol \<rightharpoonup> SymbolEntry) option"
  sideEffects :: bool
  uniqueKey :: string
  plugin :: "PackageName option"
  configPath :: "FilePath option"
  configKeyPath :: "string option"

section \<open>Asset identity\<close>

text \<open>
  The string that \<open>createAssetIdFromOptions\<close> hands to \<open>hashString\<close> (lines 76 to 83):
  base path, type, environment id and unique key are joined with nothing between them,
  then \<open>':'\<close>, the pipeline, \<open>':'\<close> and the query string. An object is truthy, so
  \<open>options.query ? ... : ''\<close> takes the first branch for every query that is present.
\<close>

definition assetIdString ::
  "(QueryParameters \<Rightarrow> (string \<times> string) list) \<Rightarrow> ((string \<times> string) list \<Rightarrow> string)
    \<Rightarrow> AssetOptions \<Rightarrow> string" where
  "assetIdString objectSortedEntries JSON_stringify options =
    (let uniqueKey = (case AssetOptions.uniqueKey options of Some u \<Rightarrow> u | None \<Rightarrow> '''');
         idBase = (case AssetOptions.idBase options of Some b \<Rightarrow> b
                   | None \<Rightarrow> AssetOptions.filePath options);
         queryString = (case AssetOptions.query options of
                          Some q \<Rightarrow> JSON_stringify (objectSortedEntries q)
                        | None \<Rightarrow> '''')
     in idBase @ AssetOptions.type options @ Environment.id' (AssetOptions.env options)
          @ uniqueKey @ '':''
          @ (case AssetOptions.pipeline options of Some p \<Rightarrow> p | None \<Rightarrow> '''')
          @ '':'' @ queryString)"

definition createAssetIdFromOptions ::
  "(string \<Rightarrow> string) \<Rightarrow> (QueryParameters \<Rightarrow> (string \<times> string) list)
    \<Rightarrow> ((string \<times> string) list \<Rightarrow> string) \<Rightarrow> AssetOptions \<Rightarrow> string" where
  "createAssetIdFromOptions hashString objectSortedEntries JSON_stringify options =
    hashString (assetIdString objectSortedEntries JSON_stringify options)"

definition createAsset ::
  "(string \<Rightarrow> string) \<Rightarrow> (QueryParameters \<Rightarrow> (string \<times> string) list)
    \<Rightarrow> ((string \<times> string) list \<Rightarrow> string) \<Rightarrow> (BundleBehavior \<Rightarrow> nat)
    \<Rightarrow> AssetOptions \<Rightarrow> Asset" where
  "createAsset hashString objectSortedEntries JSON_stringify BundleBehaviorMap options =
    \<lparr> Asset.id' = (case AssetOptions.id' options of Some i \<Rightarrow> i
                   | None \<Rightarrow> createAssetIdFromOptions hashString objectSortedEntries
                               JSON_stringify options),
      Asset.committed = (case AssetOptions.committed options of Some c \<Rightarrow> c | None \<Rightarrow> False),
      Asset.hash = AssetOptions.hash options,
      Asset.filePath = AssetOptions.filePath options,
      Asset.query = AssetOptions.query options,
      Asset.bundleBehavior = (case AssetOptions.bundleBehavior options of
                                Some b \<Rightarrow> Some (BundleBehaviorMap b) | None \<Rightarrow> None),
      Asset.isBundleSplittable = (case AssetOptions.isBundleSplittable options of
                                    Some s \<Rightarrow> s | None \<Rightarrow> True),
      Asset.type = AssetOptions.type options,
      Asset.contentKey = AssetOptions.contentKey options,
      Asset.mapKey = AssetOptions.mapKey options,
      Asset.astKey = AssetOptions.astKey options,
      Asset.astGenerator = AssetOptions.astGenerator options,
      Asset.dependencies = (case AssetOptions.dependencies options of
                              Some d \<Rightarrow> d | None \<Rightarrow> Map.empty),
      Asset.isSource = AssetOptions.isSource options,
      Asset.outputHash = AssetOptions.outputHash options,
      Asset.pipeline = AssetOptions.pipeline options,
      Asset.env = AssetOptions.env options,
      Asset.meta = (case AssetOptions.meta options of Some m \<Rightarrow> m | None \<Rightarrow> []),
      Asset.stats = AssetOptions.stats options,
      Asset.symbols = AssetOptions.symbols options,
      Asset.sideEffects = (case AssetOptions.sideEffects options of Some s \<Rightarrow> s | None \<Rightarrow> True),
      Asset.uniqueKey = (case AssetOptions.uniqueKey options of Some u \<Rightarrow> u | None \<Rightarrow> ''''),
      Asset.plugin = AssetOptions.plugin options,
      Asset.configPath = AssetOptions.configPath options,
      Asset.configKeyPath = AssetOptions.configKeyPath options \<rparr>"

text \<open>
  A concrete options object for evaluating the functions above: the required fields
  only, every optional one left out.
\<close>

definition sampleEnv :: Environment where
  "sampleEnv = \<lparr> Environment.id' = ''e1'', context' = ''browser'', outputFormat = ''global'',
      isLibrary = False, shouldOptimize = False, shouldScopeHoist = False \<rparr>"

definition sampleOptions :: AssetOptions where
  "sampleOptions =
    \<lparr> AssetOptions.id' = None, AssetOptions.committed = None, AssetOptions.hash = None,
      AssetOptions.idBase = None, AssetOptions.filePath = ''src/index.js'',
      AssetOptions.query = None, AssetOptions.type = ''js'',
      AssetOptions.contentKey = None, AssetOptions.mapKey = None, AssetOptions.astKey = None,
      AssetOptions.astGenerator = None, AssetOptions.dependencies = None,
      AssetOptions.bundleBehavior = None, AssetOptions.isBundleSplittable = None,
      AssetOptions.isSource = True, AssetOptions.env = sampleEnv, AssetOptions.meta = None,
      AssetOptions.outputHash = None, AssetOptions.pipeline = None,
      AssetOptions.stats = \<lparr> time = 0, size = 0 \<rparr>, AssetOptions.symbols = None,
      AssetOptions.sideEffects = None, AssetOptions.uniqueKey = None,
      AssetOptions.plugin = None, AssetOptions.configPath = None,
      AssetOptions.configKeyPath = None \<rparr>"

text \<open>
  Stand-ins for the imported functions, for evaluating the model: a \<open>hashString\<close> that is
  injective (it returns its argument), entries left in their order, a plain rendering
  of the entries, and the numbers of the two bundle behaviours.
\<close>

definition sampleHashString :: "string \<Rightarrow> string" where
  "sampleHashString s = s"

definition sampleSortedEntries :: "QueryParameters \<Rightarrow> (string \<times> string) list" where
  "sampleSortedEntries q = q"

definition sampleStringify :: "(string \<times> string) list \<Rightarrow> string" where
  "sampleStringify entries = concat (map (\<lambda>(k, v). k @ ''='' @ v) entries)"


section \<open>Invalidation digest\<close>

text \<open>
  \<open>throw new Error(message)\<close> and a rejected promise: the error with its message.
  \<open>Nullish\<close> is the error of \<open>nullthrows\<close>, whose message is \<open>Got unexpected null\<close> or
  \<open>Got unexpected undefined\<close>, by the value it was given.
\<close>

datatype error = Error string | Nullish


text \<open>
  An invalidation entry as the two functions below read it: the \<open>type\<close> tag, the
  \<open>filePath\<close> of a \<open>'file'\<close> entry and the \<open>key\<close> of an \<open>'env'\<close> or \<open>'option'\<close> entry.
  The tag is a string, so an entry of any other kind is a value of the type.
\<close>

record RequestInvalidation =
  type :: string
  filePath :: FilePath
  key :: string

definition getInvalidationId :: "RequestInvalidation \<Rightarrow> error + string" where
  "getInvalidationId invalidation =
    (if RequestInvalidation.type invalidation = ''file''
       then Inr (''file:'' @ RequestInvalidation.filePath invalidation)
     else if RequestInvalidation.type invalidation = ''env''
       then Inr (''env:'' @ key invalidation)
     else if RequestInvalidation.type invalidation = ''option''
       then Inr (''option:'' @ key invalidation)
     else Inl (Error (''Unknown invalidation type: '' @ RequestInvalidation.type invalidation)))"


text \<open>
  The comparison function passed to \<open>sort\<close>:
  \<open>(a, b) => (getInvalidationId(a) < getInvalidationId(b) ? -1 : 1)\<close>. Both ids are
  computed, the left one first; \<open><\<close> on strings compares code units lexicographically.
\<close>

definition compareInvalidations :: "RequestInvalidation \<Rightarrow> RequestInvalidation \<Rightarrow> error + int" where
  "compareInvalidations a b =
    (case getInvalidationId a of
       Inl e \<Rightarrow> Inl e
     | Inr ia \<Rightarrow> (case getInvalidationId b of
                    Inl e \<Rightarrow> Inl e
                  | Inr ib \<Rightarrow> Inr (if ia < ib then - 1 else 1)))"


text \<open>
  \<open>Array.prototype.sort\<close> with a comparison function. The language leaves the algorithm
  to the engine; the model inserts the elements one by one, from the left, each before the
  first element of the sorted part that the comparison function places it in front of
  (a negative result). An exception thrown by the comparison function ends the sort.
\<close>

fun insertSorted :: "('a \<Rightarrow> 'a \<Rightarrow> error + int) \<Rightarrow> 'a \<Rightarrow> 'a list \<Rightarrow> error + 'a list" where
  "insertSorted comparefn x [] = Inr [x]"
| "insertSorted comparefn x (y # ys) =
    (case comparefn x y of
       Inl e \<Rightarrow> Inl e
     | Inr order \<Rightarrow>
         if order < 0 then Inr (x # y # ys)
         else (case insertSorted comparefn x ys of
                 Inl e \<Rightarrow> Inl e
               | Inr zs \<Rightarrow> Inr (y # zs)))"

fun sortInto :: "('a \<Rightarrow> 'a \<Rightarrow> error + int) \<Rightarrow> 'a list \<Rightarrow> 'a list \<Rightarrow> error + 'a list" where
  "sortInto comparefn acc [] = Inr acc"
| "sortInto comparefn acc (x # xs) =
    (case insertSorted comparefn x acc of
       Inl e \<Rightarrow> Inl e
     | Inr acc' \<Rightarrow> sortInto comparefn acc' xs)"

definition array_sort :: "('a \<Rightarrow> 'a \<Rightarrow> error + int) \<Rightarrow> 'a list \<Rightarrow> error + 'a list" where
  "array_sort comparefn xs = sortInto comparefn [] xs"


text \<open>
  \<open>options\<close> and \<open>options.env\<close> are plain objects, so reading a property that is not
  their own finds the one of that name on \<open>Object.prototype\<close>, if there is one.
  \<open>objectPrototype\<close> gives, for each such name, the text the inherited value has when
  it is joined to a string (a built-in function prints as
  \<open>function name() { [native code] }\<close>); every inherited value is truthy.
\<close>

definition objectPrototype :: "string \<Rightarrow> string option" where
  "objectPrototype name =
    (if name = ''constructor'' then Some ''function Object() { [native code] }''
     else if name = ''__proto__'' then Some ''[object Object]''
     else if name \<in> set [''toString'', ''toLocaleString'', ''valueOf'', ''hasOwnProperty'',
                          ''isPrototypeOf'', ''propertyIsEnumerable'', ''__defineGetter__'',
                          ''__defineSetter__'', ''__lookupGetter__'', ''__lookupSetter__'']
       then Some (''function '' @ name @ ''() { [native code] }'')
     else None)"

text \<open>
  The parts of \<open>ParcelOptions\<close> that \<open>getInvalidationHash\<close> reads: the input file
  system (handed to \<open>hashFile\<close>), the own properties of \<open>options.env\<close>, and the own
  properties of \<open>options\<close> other than \<open>env\<close> and \<open>inputFS\<close>, by name. \<open>hashCache\<close> is
  the module's build cache: it maps a file path to the promise stored for it, a promise
  being modelled by its outcome.
\<close>

type_synonym FileSystem = "FilePath \<rightharpoonup> string"
type_synonym HashCache = "FilePath \<rightharpoonup> (error + string)"

record ParcelOptions =
  inputFS :: FileSystem
  env :: "string \<rightharpoonup> string"
  optionValues :: "string \<rightharpoonup> JSONValue"

text \<open>
  \<open>options.env[key] || ''\<close> as the text joined to \<open>hashes\<close>: an own value unless it is
  empty, else the text of an inherited property, else the empty string.
\<close>

definition envProperty :: "(string \<rightharpoonup> string) \<Rightarrow> string \<Rightarrow> string" where
  "envProperty e k =
    (case e k of
       Some v \<Rightarrow> (if v = '''' then '''' else v)
     | None \<Rightarrow> (case objectPrototype k of Some inherited \<Rightarrow> inherited | None \<Rightarrow> ''''))"

text \<open>
  \<open>options[key]\<close>, the value handed to \<open>hashFromOption\<close>: the env object for \<open>'env'\<close>,
  the file system for \<open>'inputFS'\<close>, another own property, an inherited one, or
  \<open>undefined\<close>.
\<close>

datatype OptionValue =
    EnvObject "string \<rightharpoonup> string"
  | FileSystemObject FileSystem
  | OwnValue JSONValue
  | InheritedValue string
  | UndefinedValue

definition optionProperty :: "ParcelOptions \<Rightarrow> string \<Rightarrow> OptionValue" where
  "optionProperty options k =
    (if k = ''env'' then EnvObject (ParcelOptions.env options)
     else if k = ''inputFS'' then FileSystemObject (inputFS options)
     else (case optionValues options k of
             Some v \<Rightarrow> OwnValue v
           | None \<Rightarrow> (case objectPrototype k of
                         Some inherited \<Rightarrow> InheritedValue k
                       | None \<Rightarrow> UndefinedValue)))"

text \<open>
  The \<open>for\<close> loop of \<open>getInvalidationHash\<close> (lines 205 to 228) over the sorted entries,
  with the string \<open>hashes\<close> built so far and the build cache.
\<close>

fun hashInvalidations ::
  "(FileSystem \<Rightarrow> FilePath \<Rightarrow> error + string) \<Rightarrow> (OptionValue \<Rightarrow> string) \<Rightarrow> ParcelOptions
    \<Rightarrow> RequestInvalidation list \<Rightarrow> string \<Rightarrow> HashCache \<Rightarrow> (error + string) \<times> HashCache" where
  "hashInvalidations hashFile hashFromOption options [] hashes hashCache = (Inr hashes, hashCache)"
| "hashInvalidations hashFile hashFromOption options (invalidation # rest) hashes hashCache =
    (if RequestInvalidation.type invalidation = ''file'' then
       (case hashCache (RequestInvalidation.filePath invalidation) of
          None \<Rightarrow>
            (let fileHash = hashFile (inputFS options) (RequestInvalidation.filePath invalidation);
                 hashCache' = hashCache(RequestInvalidation.filePath invalidation \<mapsto> fileHash)
             in (case fileHash of
                   Inl e \<Rightarrow> (Inl e, hashCache')
                 | Inr h \<Rightarrow> hashInvalidations hashFile hashFromOption options rest
                             (hashes @ h) hashCache'))
        | Some fileHash \<Rightarrow>
            (case fileHash of
               Inl e \<Rightarrow> (Inl e, hashCache)
             | Inr h \<Rightarrow> hashInvalidations hashFile hashFromOption options rest
                         (hashes @ h) hashCache))
     else if RequestInvalidation.type invalidation = ''env'' then
       hashInvalidations hashFile hashFromOption options rest
         (hashes @ key invalidation @ '':''
            @ envProperty (ParcelOptions.env options) (key invalidation))
         hashCache
     else if RequestInvalidation.type invalidation = ''option'' then
       hashInvalidations hashFile hashFromOption options rest
         (hashes @ key invalidation @ '':''
            @ hashFromOption (optionProperty options (key invalidation)))
         hashCache
     else (Inl (Error (''Unknown invalidation type: '' @ RequestInvalidation.type invalidation)),
           hashCache))"

definition getInvalidationHash ::
  "(string \<Rightarrow> string) \<Rightarrow> (FileSystem \<Rightarrow> FilePath \<Rightarrow> error + string) \<Rightarrow> (OptionValue \<Rightarrow> string)
    \<Rightarrow> RequestInvalidation list \<Rightarrow> ParcelOptions \<Rightarrow> HashCache \<Rightarrow> (error + string) \<times> HashCache" where
  "getInvalidationHash hashString hashFile hashFromOption invalidations options hashCache =
    (if length invalidations = 0 then (Inr '''', hashCache)
     else (case array_sort compareInvalidations invalidations of
             Inl e \<Rightarrow> (Inl e, hashCache)
           | Inr sortedInvalidations \<Rightarrow>
               (case hashInvalidations hashFile hashFromOption options sortedInvalidations
                       '''' hashCache of
                  (Inl e, hashCache') \<Rightarrow> (Inl e, hashCache')
                | (Inr hashes, hashCache') \<Rightarrow> (Inr (hashString hashes), hashCache'))))"

text \<open>
  Concrete invalidation entries and options for evaluating the digest, with stand-ins
  for the imported \<open>hashFile\<close> (fails on a missing file) and \<open>hashFromOption\<close> (a string
  option as it is, the env object by its variable \<open>X\<close>).
\<close>

definition sampleInvalidations :: "RequestInvalidation list" where
  "sampleInvalidations =
    [\<lparr> RequestInvalidation.type = ''file'', filePath = ''b.js'', key = '''' \<rparr>,
     \<lparr> RequestInvalidation.type = ''env'', filePath = '''', key = ''NODE_ENV'' \<rparr>,
     \<lparr> RequestInvalidation.type = ''option'', filePath = '''', key = ''mode'' \<rparr>,
     \<lparr> RequestInvalidation.type = ''file'', filePath = ''a.js'', key = '''' \<rparr>]"

definition sampleParcelOptions :: ParcelOptions where
  "sampleParcelOptions =
    \<lparr> inputFS = [''a.js'' \<mapsto> ''A'', ''b.js'' \<mapsto> ''B''],
      ParcelOptions.env = [''NODE_ENV'' \<mapsto> ''production''],
      optionValues = [''mode'' \<mapsto> JString ''development''] \<rparr>"

definition sampleHashFile :: "FileSystem \<Rightarrow> FilePath \<Rightarrow> error + string" where
  "sampleHashFile fs p = (case fs p of None \<Rightarrow> Inl (Error (''ENOENT: '' @ p)) | Some c \<Rightarrow> Inr (''<'' @ c @ ''>''))"

definition sampleHashFromOption :: "OptionValue \<Rightarrow> string" where
  "sampleHashFromOption v =
    (case v of
       OwnValue (JString s) \<Rightarrow> s
     | EnvObject e \<Rightarrow> (case e ''X'' of None \<Rightarrow> ''{}'' | Some x \<Rightarrow> ''{X:'' @ x @ ''}'')
     | _ \<Rightarrow> '''')"

section \<open>Generated output\<close>

text \<open>
  \<open>generateFromAST\<close> takes a \<open>CommittedAsset\<close> or \<open>UncommittedAsset\<close>: an object with the
  asset record \<open>value\<close> and the method \<open>getAST\<close>. \<open>generateResults\<close> is a \<open>WeakMap\<close>, keyed
  by the identity of the object \<open>asset.value\<close>, which \<open>valueRef\<close> stands for. A promise is
  modelled by its outcome, and the body of an \<open>async\<close> function by what it does when run
  to its end. The plugin's \<open>generate\<close> gets the asset and the AST; the options and the
  logger handed to it are left out.
\<close>

record AST =
  type :: string
  version :: string
  program :: JSONValue

datatype Blob = BlobString string | BlobBuffer string | BlobReadable string

datatype SourceMap = SourceMap (toBuffer: string)

record GenerateOutput =
  content :: Blob
  map' :: "SourceMap option"

record Transformer =
  generate :: "(Asset \<Rightarrow> AST \<Rightarrow> error + GenerateOutput) option"

record AssetHandle =
  valueRef :: nat
  "value" :: Asset
  getAST :: "error + AST option"

text \<open>
  The state the two functions work on: the module's \<open>generateResults\<close>, the cache of
  \<open>asset.options.cache\<close> as a store of bytes by key, and, for counting, the list of the
  calls of a plugin's \<open>generate\<close> so far (plugin name and asset object).
\<close>

record GenerateState =
  generateResults :: "nat \<rightharpoonup> (error + GenerateOutput)"
  generateCalls :: "(PackageName \<times> nat) list"
  cache :: "string \<rightharpoonup> string"

text \<open>
  \<open>nullthrows\<close> throws on \<open>null\<close> and \<open>undefined\<close> and returns any other value. The
  cache methods \<open>setStream\<close>, \<open>setBlob\<close> and \<open>getStream\<close> store and read bytes by key.
\<close>

definition nullthrows :: "'a option \<Rightarrow> error + 'a" where
  "nullthrows x = (case x of None \<Rightarrow> Inl Nullish | Some v \<Rightarrow> Inr v)"

fun blobData :: "Blob \<Rightarrow> string" where
  "blobData (BlobString s) = s"
| "blobData (BlobBuffer s) = s"
| "blobData (BlobReadable s) = s"

definition blobToStream :: "Blob \<Rightarrow> Blob" where
  "blobToStream b = BlobReadable (blobData b)"

definition setStream :: "string \<Rightarrow> Blob \<Rightarrow> GenerateState \<Rightarrow> GenerateState" where
  "setStream k stream st = st\<lparr> cache := (cache st)(k \<mapsto> blobData stream) \<rparr>"

definition setBlob :: "string \<Rightarrow> string \<Rightarrow> GenerateState \<Rightarrow> GenerateState" where
  "setBlob k buffer st = st\<lparr> cache := (cache st)(k \<mapsto> buffer) \<rparr>"

definition getStream :: "string \<Rightarrow> GenerateState \<Rightarrow> Blob" where
  "getStream k st = BlobReadable (case cache st k of Some d \<Rightarrow> d | None \<Rightarrow> '''')"

text \<open>
  The source's \<open>_generateFromAST\<close> (lines 132 to 175); \<open>loadPlugin\<close> is a parameter. Each
  \<open>throw\<close>, each \<open>nullthrows\<close> and each rejected \<open>await\<close> is a branch that returns the
  error with the state reached.
\<close>

definition generateFromAST_impl ::
  "(PackageName \<Rightarrow> FilePath \<Rightarrow> string \<Rightarrow> error + Transformer) \<Rightarrow> AssetHandle \<Rightarrow> GenerateState
    \<Rightarrow> (error + GenerateOutput) \<times> GenerateState" where
  "generateFromAST_impl loadPlugin asset st =
    (case getAST asset of
       Inl e \<Rightarrow> (Inl e, st)
     | Inr None \<Rightarrow> (Inl (Error ''Asset has no AST''), st)
     | Inr (Some ast) \<Rightarrow>
    (case nullthrows (Asset.plugin (value asset)) of
       Inl e \<Rightarrow> (Inl e, st)
     | Inr pluginName \<Rightarrow>
    (case nullthrows (Asset.configPath (value asset)) of
       Inl e \<Rightarrow> (Inl e, st)
     | Inr cfgPath \<Rightarrow>
    (case nullthrows (Asset.configKeyPath (value asset)) of
       Inl e \<Rightarrow> (Inl e, st)
     | Inr cfgKeyPath \<Rightarrow>
    (case loadPlugin pluginName cfgPath cfgKeyPath of
       Inl e \<Rightarrow> (Inl e, st)
     | Inr loaded \<Rightarrow>
    (case generate loaded of
       None \<Rightarrow> (Inl (Error (pluginName @ '' does not have a generate method'')), st)
     | Some gen \<Rightarrow>
    (let st1 = st\<lparr> generateCalls := generateCalls st @ [(pluginName, valueRef asset)] \<rparr> in
    (case gen (value asset) ast of
       Inl e \<Rightarrow> (Inl e, st1)
     | Inr out \<Rightarrow>
    (case nullthrows (Asset.contentKey (value asset)) of
       Inl e \<Rightarrow> (Inl e, st1)
     | Inr cKey \<Rightarrow>
    (let st2 = setStream cKey (blobToStream (content out)) st1 in
    (case map' out of
       None \<Rightarrow>
         (Inr \<lparr> content = (case content out of BlobReadable s \<Rightarrow> getStream cKey st2 | c \<Rightarrow> c),
                map' = map' out \<rparr>, st2)
     | Some m \<Rightarrow>
    (case nullthrows (Asset.mapKey (value asset)) of
       Inl e \<Rightarrow> (Inl e, st2)
     | Inr mKey \<Rightarrow>
    (let st3 = setBlob mKey (toBuffer m) st2 in
         (Inr \<lparr> content = (case content out of BlobReadable s \<Rightarrow> getStream cKey st3 | c \<Rightarrow> c),
                map' = map' out \<rparr>, st3))))))))))))))"






section \<open>Transform stage of the CSS transformer\<close>

text \<open>
  A postcss message as the loop over \<open>messages\<close> reads it: the \<open>type\<close>, the \<open>file\<close> of a
  \<open>'dependency'\<close> message, the \<open>dir\<close> and the optional \<open>glob\<close> of a \<open>'dir-dependency'\<close>
  message. \<open>FileCreateInvalidation\<close> is the union of lines 1457 to 1473 of the types.
\<close>

record PostcssMessage =
  type :: string
  "file" :: FilePath
  dir :: FilePath
  glob :: "Glob option"

datatype FileCreateInvalidation =
    FileInvalidation FilePath
  | GlobInvalidation Glob
  | FileAboveInvalidation string FilePath

text \<open>
  Modelled from the spec: the transformer's asset (\<open>MutableAsset\<close>, whose implementation
  is not among the sources) records the \<open>invalidateOnFileChange\<close> and
  \<open>invalidateOnFileCreate\<close> entries it is given; the asset is its file system and the
  two lists of recorded entries, each call adding one entry.
\<close>

record MutableAsset =
  fs :: FileSystem
  fileChangeInvalidations :: "FilePath list"
  fileCreateInvalidations :: "FileCreateInvalidation list"

definition invalidateOnFileChange :: "FilePath \<Rightarrow> MutableAsset \<Rightarrow> MutableAsset" where
  "invalidateOnFileChange p asset =
    asset\<lparr> fileChangeInvalidations := fileChangeInvalidations asset @ [p] \<rparr>"

definition invalidateOnFileCreate :: "FileCreateInvalidation \<Rightarrow> MutableAsset \<Rightarrow> MutableAsset" where
  "invalidateOnFileCreate invalidation asset =
    asset\<lparr> fileCreateInvalidations := fileCreateInvalidations asset @ [invalidation] \<rparr>"

text \<open>
  The loop over the postcss messages in \<open>transform\<close> (lines 114 to 125). \<open>glob\<close> (with
  \<open>onlyFiles\<close>) and \<open>path.normalize\<close> are parameters; a rejected \<open>glob\<close> ends the
  transform with its error. \<open>messagePattern\<close> is the template string
  \<open>`${msg.dir}/${msg.glob ?? '**/*'}`\<close>, \<open>invalidateFiles\<close> the inner loop over the files.
\<close>

definition messagePattern :: "PostcssMessage \<Rightarrow> Glob" where
  "messagePattern msg = dir msg @ ''/'' @ (case glob msg of Some g \<Rightarrow> g | None \<Rightarrow> ''**/*'')"

fun invalidateFiles :: "(FilePath \<Rightarrow> FilePath) \<Rightarrow> FilePath list \<Rightarrow> MutableAsset \<Rightarrow> MutableAsset" where
  "invalidateFiles normalizePath [] asset = asset"
| "invalidateFiles normalizePath (f # files) asset =
    invalidateFiles normalizePath files (invalidateOnFileChange (normalizePath f) asset)"

fun transformMessages ::
  "(Glob \<Rightarrow> FileSystem \<Rightarrow> error + FilePath list) \<Rightarrow> (FilePath \<Rightarrow> FilePath)
    \<Rightarrow> PostcssMessage list \<Rightarrow> MutableAsset \<Rightarrow> (error + unit) \<times> MutableAsset" where
  "transformMessages globFiles normalizePath [] asset = (Inr (), asset)"
| "transformMessages globFiles normalizePath (msg # messages) asset =
    (if PostcssMessage.type msg = ''dependency'' then
       transformMessages globFiles normalizePath messages (invalidateOnFileChange (file msg) asset)
     else if PostcssMessage.type msg = ''dir-dependency'' then
       (let pattern = messagePattern msg in
        case globFiles pattern (fs asset) of
          Inl e \<Rightarrow> (Inl e, asset)
        | Inr files \<Rightarrow>
            transformMessages globFiles normalizePath messages
              (invalidateOnFileCreate (GlobInvalidation pattern)
                 (invalidateFiles normalizePath files asset)))
     else transformMessages globFiles normalizePath messages asset)"





section \<open>Symbol resolution\<close>

text \<open>
  The type \<open>SymbolResolution\<close> (lines 1264 to 1273): the asset, named by its id, the
  name under which it exports the symbol, and the \<open>symbol\<close> field of type
  \<open>void | null | false | Symbol\<close>. The location \<open>loc\<close> is left out.
\<close>

type_synonym AssetId = string

datatype SymbolField = JSUndefined | JSNull | JSFalse | JSSymbol Symbol

record SymbolResolution =
  asset' :: AssetId
  exportSymbol :: Symbol
  symbol :: SymbolField

text \<open>
  Modelled from the spec: the four terminal outcomes of a query (section 4.4), and the
  value of the \<open>symbol\<close> field that stands for each, as the comment on \<open>resolveSymbol\<close>
  (lines 1418 to 1433) and the spec give them. The body of \<open>resolveSymbol\<close> is not among
  the sources; only its declaration is.
\<close>

datatype Outcome = Resolved Symbol | BailOut | NotFound | Skipped

fun sentinel :: "Outcome \<Rightarrow> SymbolField" where
  "sentinel (Resolved l) = JSSymbol l"
| "sentinel BailOut = JSNull"
| "sentinel NotFound = JSUndefined"
| "sentinel Skipped = JSFalse"

text \<open>
  Modelled from the spec: the part of the asset graph that symbol resolution walks. An
  asset has an export table from exported names to local bindings, or none when the
  table is cleared, and its dependencies; a dependency has an import table, the asset
  it resolved to, if any, and a flag for an excluded edge. An import entry with \<open>isWeak\<close>
  re-exports the target's \<open>imported\<close> name under the name \<open>local\<close>.
\<close>

record ImportEntry =
  imported :: Symbol
  local :: Symbol
  isWeak :: bool

record GraphDependency =
  symbols :: "ImportEntry list"
  resolution :: "AssetId option"
  skipped :: bool

record GraphAsset =
  id' :: AssetId
  symbols :: "(Symbol \<rightharpoonup> Symbol) option"
  dependencies :: "GraphDependency list"

type_synonym AssetGraph = "GraphAsset list"

text \<open>
  Modelled from the spec: the steps of the algorithm of section 4.4. \<open>reexportTargets\<close>
  are the targets, with the name to look for there, of the dependencies that re-export
  under a name; \<open>reexportSkipped\<close> holds when such a dependency is excluded;
  \<open>leavesBoundary\<close> holds when a boundary bundle is given and does not contain the asset.
  \<open>importTargets\<close> lists every pair the traversal can visit.
\<close>

definition getAsset :: "AssetGraph \<Rightarrow> AssetId \<Rightarrow> GraphAsset option" where
  "getAsset graph a = find (\<lambda>n. GraphAsset.id' n = a) graph"

definition reexports :: "Symbol \<Rightarrow> GraphDependency \<Rightarrow> ImportEntry list" where
  "reexports s d = filter (\<lambda>e. isWeak e \<and> ImportEntry.local e = s) (GraphDependency.symbols d)"

definition reexportTargets :: "GraphAsset \<Rightarrow> Symbol \<Rightarrow> (AssetId \<times> Symbol) list" where
  "reexportTargets n s =
    concat (map (\<lambda>d. case resolution d of
                        None \<Rightarrow> []
                      | Some t \<Rightarrow> map (\<lambda>e. (t, imported e)) (reexports s d))
                (GraphAsset.dependencies n))"

definition reexportSkipped :: "GraphAsset \<Rightarrow> Symbol \<Rightarrow> bool" where
  "reexportSkipped n s =
    list_ex (\<lambda>d. skipped d \<and> reexports s d \<noteq> []) (GraphAsset.dependencies n)"

definition leavesBoundary :: "AssetId list option \<Rightarrow> AssetId \<Rightarrow> bool" where
  "leavesBoundary boundary a = (case boundary of None \<Rightarrow> False | Some bundle \<Rightarrow> a \<notin> set bundle)"

definition dependencyTargets :: "GraphDependency \<Rightarrow> (AssetId \<times> Symbol) list" where
  "dependencyTargets d =
    (case resolution d of
       None \<Rightarrow> []
     | Some t \<Rightarrow> map (\<lambda>e. (t, imported e)) (GraphDependency.symbols d))"

definition importTargets :: "AssetGraph \<Rightarrow> (AssetId \<times> Symbol) list" where
  "importTargets graph =
    concat (map (\<lambda>n. concat (map dependencyTargets (GraphAsset.dependencies n))) graph)"

text \<open>
  Modelled from the spec: the traversal. It works off a list of (asset, symbol) pairs
  still to look at, with the set of pairs already visited, so that it ends on cyclic
  re-export chains. The queried pair \<open>origin\<close> is looked at whatever the boundary; any
  other pair is a re-export target, and one whose asset is outside the boundary ends the
  traversal with "not found" at that asset, before its table is read. At a pair that is
  looked at, a cleared export table ends the traversal with a bail-out; an entry of the
  asset's own table with the binding; an excluded re-export with "skipped"; otherwise
  the re-export targets are looked at next. With nothing left the symbol is not found,
  at the asset of the query.
\<close>

function resolveFrom ::
  "AssetGraph \<Rightarrow> AssetId list option \<Rightarrow> AssetId \<times> Symbol \<Rightarrow> (AssetId \<times> Symbol) list
    \<Rightarrow> (AssetId \<times> Symbol) list \<Rightarrow> AssetId \<times> Symbol \<times> Outcome" where
  "resolveFrom graph boundary origin visited [] = (fst origin, snd origin, NotFound)"
| "resolveFrom graph boundary origin visited ((a, s) # todo) =
    (if (a, s) \<in> set visited then resolveFrom graph boundary origin visited todo
     else if (a, s) \<noteq> origin \<and> leavesBoundary boundary a then (a, s, NotFound)
     else (case getAsset graph a of
             None \<Rightarrow> resolveFrom graph boundary origin ((a, s) # visited) todo
           | Some n \<Rightarrow>
               (case GraphAsset.symbols n of
                  None \<Rightarrow> (a, s, BailOut)
                | Some exports \<Rightarrow>
                    (case exports s of
                       Some l \<Rightarrow> (a, s, Resolved l)
                     | None \<Rightarrow>
                         if reexportSkipped n s then (a, s, Skipped)
                         else resolveFrom graph boundary origin ((a, s) # visited)
                                (reexportTargets n s @ todo)))))"
  by pat_completeness auto
termination
proof (relation "measures
    [\<lambda>(graph, boundary, origin, visited, todo).
        card ((set (importTargets graph) \<union> set todo) - set visited),
     \<lambda>(graph, boundary, origin, visited, todo). length todo]", goal_cases)
  case 1
  then show ?case by simp
next
  case (2 graph boundary origin visited a s todo)
  then have "(set (importTargets graph) \<union> set todo) - set visited
      = (set (importTargets graph) \<union> set ((a, s) # todo)) - set visited"
    by auto
  then show ?case by simp
next
  case (3 graph boundary origin visited a s todo)
  have "(set (importTargets graph) \<union> set todo) - insert (a, s) (set visited)
      \<subset> (set (importTargets graph) \<union> insert (a, s) (set todo)) - set visited"
    using 3(1) by auto
  moreover have "finite ((set (importTargets graph) \<union> insert (a, s) (set todo)) - set visited)"
    by simp
  ultimately have "card ((set (importTargets graph) \<union> set todo) - insert (a, s) (set visited))
      < card ((set (importTargets graph) \<union> insert (a, s) (set todo)) - set visited)"
    by (simp only: psubset_card_mono)
  then show ?case by simp
next
  case (4 graph boundary origin visited a s todo n exports)
  have mem: "n \<in> set graph"
    using 4(3) by (auto simp: getAsset_def find_Some_iff)
  have sub: "set (reexportTargets n s) \<subseteq> set (importTargets graph)"
  proof
    fix p assume "p \<in> set (reexportTargets n s)"
    then obtain d where d: "d \<in> set (GraphAsset.dependencies n)"
      "p \<in> set (case resolution d of None \<Rightarrow> []
                   | Some t \<Rightarrow> map (\<lambda>e. (t, imported e)) (reexports s d))"
      by (auto simp: reexportTargets_def)
    then have "p \<in> set (dependencyTargets d)"
      by (auto simp: dependencyTargets_def reexports_def split: option.splits)
    then show "p \<in> set (importTargets graph)"
      using mem d(1) by (auto simp: importTargets_def)
  qed
  have "(set (importTargets graph) \<union> (set (reexportTargets n s) \<union> set todo))
          - insert (a, s) (set visited)
      \<subset> (set (importTargets graph) \<union> insert (a, s) (set todo)) - set visited"
    using 4(1) sub by auto
  moreover have "finite ((set (importTargets graph) \<union> insert (a, s) (set todo)) - set visited)"
    by simp
  ultimately have "card ((set (importTargets graph) \<union> (set (reexportTargets n s) \<union> set todo))
          - insert (a, s) (set visited))
      < card ((set (importTargets graph) \<union> insert (a, s) (set todo)) - set visited)"
    by (simp only: psubset_card_mono)
  then show ?case by simp
qed

text \<open>
  Modelled from the spec: \<open>resolveSymbol(asset, symbol, boundary)\<close>, the traversal
  from the queried pair with its outcome written to the \<open>symbol\<close> field.
\<close>

definition resolveSymbol ::
  "AssetGraph \<Rightarrow> AssetId \<Rightarrow> Symbol \<Rightarrow> AssetId list option \<Rightarrow> SymbolResolution" where
  "resolveSymbol graph a s boundary =
    (case resolveFrom graph boundary (a, s) [] [(a, s)] of
       (a', s', outcome) \<Rightarrow> \<lparr> asset' = a', exportSymbol = s', symbol = sentinel outcome \<rparr>)"

text \<open>
  What a query finds at a pair: \<open>cleared\<close> when the asset's export table is cleared,
  \<open>declares\<close> when the table binds the name, \<open>excluded\<close> when it does not and a
  dependency that re-exports the name is excluded, and \<open>forwards\<close> when it does not and
  no such dependency is excluded, so that the re-export targets are to be followed.
\<close>

definition cleared :: "AssetGraph \<Rightarrow> AssetId \<Rightarrow> bool" where
  "cleared graph a =
    (case getAsset graph a of None \<Rightarrow> False | Some n \<Rightarrow> GraphAsset.symbols n = None)"

definition declares :: "AssetGraph \<Rightarrow> AssetId \<Rightarrow> Symbol \<Rightarrow> Symbol \<Rightarrow> bool" where
  "declares graph a s l =
    (case getAsset graph a of
       None \<Rightarrow> False
     | Some n \<Rightarrow> (case GraphAsset.symbols n of None \<Rightarrow> False | Some exports \<Rightarrow> exports s = Some l))"

definition excluded :: "AssetGraph \<Rightarrow> AssetId \<Rightarrow> Symbol \<Rightarrow> bool" where
  "excluded graph a s =
    (case getAsset graph a of
       None \<Rightarrow> False
     | Some n \<Rightarrow> (case GraphAsset.symbols n of
                    None \<Rightarrow> False
                  | Some exports \<Rightarrow> exports s = None \<and> reexportSkipped n s))"

definition forwards :: "AssetGraph \<Rightarrow> AssetId \<Rightarrow> Symbol \<Rightarrow> (AssetId \<times> Symbol) list option" where
  "forwards graph a s =
    (case getAsset graph a of
       None \<Rightarrow> Some []
     | Some n \<Rightarrow> (case GraphAsset.symbols n of
                    None \<Rightarrow> None
                  | Some exports \<Rightarrow>
                      if exports s = None \<and> \<not> reexportSkipped n s
                      then Some (reexportTargets n s) else None))"

text \<open>
  The pairs a query reaches: the queried pair, and the re-export targets of a reached
  pair that forwards the name and is the queried pair or has its asset inside the
  boundary.
\<close>

inductive reaches ::
  "AssetGraph \<Rightarrow> AssetId list option \<Rightarrow> AssetId \<times> Symbol \<Rightarrow> AssetId \<times> Symbol \<Rightarrow> bool"
  for graph boundary origin where
  start: "reaches graph boundary origin origin"
| follow: "reaches graph boundary origin (a, s)
     \<Longrightarrow> (a, s) = origin \<or> \<not> leavesBoundary boundary a
     \<Longrightarrow> forwards graph a s = Some targets \<Longrightarrow> q \<in> set targets
     \<Longrightarrow> reaches graph boundary origin q"

text \<open>
  What holds of the result of a traversal: an outcome other than "not found" is what the
  result's pair shows, at a pair that was looked at; "not found" comes with the queried
  pair or with an asset outside the boundary.
\<close>

definition soundAt ::
  "AssetGraph \<Rightarrow> AssetId list option \<Rightarrow> AssetId \<times> Symbol \<Rightarrow> AssetId \<times> Symbol \<times> Outcome \<Rightarrow> bool" where
  "soundAt graph boundary origin r =
    (case r of (a', s', outcome) \<Rightarrow>
      (case outcome of
         BailOut \<Rightarrow> cleared graph a' \<and> ((a', s') = origin \<or> \<not> leavesBoundary boundary a')
       | Resolved l \<Rightarrow> declares graph a' s' l \<and> ((a', s') = origin \<or> \<not> leavesBoundary boundary a')
       | Skipped \<Rightarrow> excluded graph a' s' \<and> ((a', s') = origin \<or> \<not> leavesBoundary boundary a')
       | NotFound \<Rightarrow> (a', s') = origin \<or> leavesBoundary boundary a'))"

text \<open>
  What holds of the visited pairs during a traversal: each was looked at and forwards
  the name, to targets that are visited or still to look at.
\<close>

definition visitedClosed ::
  "AssetGraph \<Rightarrow> AssetId list option \<Rightarrow> AssetId \<times> Symbol \<Rightarrow> (AssetId \<times> Symbol) list
    \<Rightarrow> (AssetId \<times> Symbol) list \<Rightarrow> bool" where
  "visitedClosed graph boundary origin visited todo =
    (\<forall>q\<in>set visited.
       (q = origin \<or> \<not> leavesBoundary boundary (fst q))
       \<and> (case forwards graph (fst q) (snd q) of
            None \<Rightarrow> False
          | Some targets \<Rightarrow> set targets \<subseteq> set visited \<union> set todo))"

text \<open>
  A graph in which \<open>A\<close> re-exports \<open>x\<close> from \<open>B\<close>, and \<open>B\<close> re-exports it from \<open>C\<close>'s \<open>y\<close>;
  \<open>A\<close> also re-exports \<open>w\<close> from \<open>D\<close>, whose export table is cleared; \<open>E\<close> re-exports \<open>z\<close>
  over an excluded dependency; \<open>F\<close> and \<open>G\<close> re-export \<open>q\<close> from one another.
\<close>

definition sampleGraph :: AssetGraph where
  "sampleGraph =
    [\<lparr> GraphAsset.id' = ''A'', GraphAsset.symbols = Some Map.empty,
       GraphAsset.dependencies =
         [\<lparr> GraphDependency.symbols = [\<lparr> imported = ''x'', ImportEntry.local = ''x'', isWeak = True \<rparr>],
            resolution = Some ''B'', skipped = False \<rparr>,
          \<lparr> GraphDependency.symbols = [\<lparr> imported = ''w'', ImportEntry.local = ''w'', isWeak = True \<rparr>],
            resolution = Some ''D'', skipped = False \<rparr>] \<rparr>,
     \<lparr> GraphAsset.id' = ''B'', GraphAsset.symbols = Some Map.empty,
       GraphAsset.dependencies =
         [\<lparr> GraphDependency.symbols = [\<lparr> imported = ''y'', ImportEntry.local = ''x'', isWeak = True \<rparr>],
            resolution = Some ''C'', skipped = False \<rparr>] \<rparr>,
     \<lparr> GraphAsset.id' = ''C'', GraphAsset.symbols = Some [''y'' \<mapsto> ''y1''],
       GraphAsset.dependencies = [] \<rparr>,
     \<lparr> GraphAsset.id' = ''D'', GraphAsset.symbols = None,
       GraphAsset.dependencies = [] \<rparr>,
     \<lparr> GraphAsset.id' = ''E'', GraphAsset.symbols = Some Map.empty,
       GraphAsset.dependencies =
         [\<lparr> GraphDependency.symbols = [\<lparr> imported = ''z'', ImportEntry.local = ''z'', isWeak = True \<rparr>],
            resolution = Some ''C'', skipped = True \<rparr>] \<rparr>,
     \<lparr> GraphAsset.id' = ''F'', GraphAsset.symbols = Some Map.empty,
       GraphAsset.dependencies =
         [\<lparr> GraphDependency.symbols = [\<lparr> imported = ''q'', ImportEntry.local = ''q'', isWeak = True \<rparr>],
            resolution = Some ''G'', skipped = False \<rparr>] \<rparr>,
     \<lparr> GraphAsset.id' = ''G'', GraphAsset.symbols = Some Map.empty,
       GraphAsset.dependencies =
         [\<lparr> GraphDependency.symbols = [\<lparr> imported = ''q'', ImportEntry.local = ''q'', isWeak = True \<rparr>],
            resolution = Some ''F'', skipped = False \<rparr>] \<rparr>]"

section \<open>Auxiliary notions\<close>

text \<open>
  An entry of known kind, and the id of such an entry as a plain string
  (\<open>getInvalidationId\<close> without the error case).
\<close>

definition knownType :: "RequestInvalidation \<Rightarrow> bool" where
  "knownType i \<longleftrightarrow> RequestInvalidation.type i = ''file'' \<or> RequestInvalidation.type i = ''env''
     \<or> RequestInvalidation.type i = ''option''"

definition idOf :: "RequestInvalidation \<Rightarrow> string" where
  "idOf i = (case getInvalidationId i of Inr s \<Rightarrow> s | Inl _ \<Rightarrow> '''')"


text \<open>The asset after the loop's body has run for one message (unchanged when \<open>glob\<close> fails).\<close>

definition afterMessage ::
  "(Glob \<Rightarrow> FileSystem \<Rightarrow> error + FilePath list) \<Rightarrow> (FilePath \<Rightarrow> FilePath)
    \<Rightarrow> PostcssMessage \<Rightarrow> MutableAsset \<Rightarrow> MutableAsset" where
  "afterMessage globFiles normalizePath m asset =
    (if PostcssMessage.type m = ''dependency'' then invalidateOnFileChange (file m) asset
     else if PostcssMessage.type m = ''dir-dependency'' then
       (case globFiles (messagePattern m) (fs asset) of
          Inr files \<Rightarrow> invalidateOnFileCreate (GlobInvalidation (messagePattern m))
                 (invalidateFiles normalizePath files asset)
        | Inl e \<Rightarrow> asset)
     else asset)"

text \<open>
  A build cache that extends another one: it keeps every stored entry, and what it holds
  beyond them is what \<open>hashFile\<close> gives for the path.
\<close>

definition cacheExtends ::
  "(FileSystem \<Rightarrow> FilePath \<Rightarrow> error + string) \<Rightarrow> FileSystem \<Rightarrow> HashCache \<Rightarrow> HashCache \<Rightarrow> bool" where
  "cacheExtends hashFile files c c' \<longleftrightarrow>
    (\<forall>p. (\<forall>h. c p = Some h \<longrightarrow> c' p = Some h)
       \<and> (c p = None \<longrightarrow> c' p = None \<or> c' p = Some (hashFile files p)))"

section \<open>Properties of asset identity\<close>



text \<open>
  Claim C4, as the code has it. Two option records that agree on the base path
  (\<open>idBase\<close>, or \<open>filePath\<close> when \<open>idBase\<close> is absent), the type, the environment id,
  the pipeline and the query, and whose unique keys differ once an absent key is read
  as the empty string, hand different strings to \<open>hashString\<close>; their identities differ
  unless \<open>hashString\<close> maps these two strings to one value.
\<close>

theorem uniqueKey_separates:
  assumes "(case AssetOptions.idBase a of Some p \<Rightarrow> p | None \<Rightarrow> AssetOptions.filePath a)
         = (case AssetOptions.idBase b of Some p \<Rightarrow> p | None \<Rightarrow> AssetOptions.filePath b)"
    and "AssetOptions.type a = AssetOptions.type b"
    and "Environment.id' (AssetOptions.env a) = Environment.id' (AssetOptions.env b)"
    and "AssetOptions.pipeline a = AssetOptions.pipeline b"
    and "AssetOptions.query a = AssetOptions.query b"
    and "(case AssetOptions.uniqueKey a of Some u \<Rightarrow> u | None \<Rightarrow> '''')
       \<noteq> (case AssetOptions.uniqueKey b of Some u \<Rightarrow> u | None \<Rightarrow> '''')"
  shows "assetIdString objectSortedEntries JSON_stringify a
          \<noteq> assetIdString objectSortedEntries JSON_stringify b
       \<and> (inj_on hashString {assetIdString objectSortedEntries JSON_stringify a,
                               assetIdString objectSortedEntries JSON_stringify b}
          \<longrightarrow> createAssetIdFromOptions hashString objectSortedEntries JSON_stringify a
            \<noteq> createAssetIdFromOptions hashString objectSortedEntries JSON_stringify b)"
proof -
  have ne: "assetIdString objectSortedEntries JSON_stringify a
          \<noteq> assetIdString objectSortedEntries JSON_stringify b"
    using assms by (simp add: assetIdString_def)
  show ?thesis
    using ne by (auto simp: createAssetIdFromOptions_def inj_on_def)
qed

theorem uniqueKey_separates_witness:
  "assetIdString sampleSortedEntries sampleStringify
      (sampleOptions\<lparr> AssetOptions.uniqueKey := Some ''left'' \<rparr>) = ''src/index.jsjse1left::''
   \<and> assetIdString sampleSortedEntries sampleStringify
      (sampleOptions\<lparr> AssetOptions.uniqueKey := None, AssetOptions.hash := Some ''h'' \<rparr>)
       = ''src/index.jsjse1::''
   \<and> createAssetIdFromOptions sampleHashString sampleSortedEntries sampleStringify
        (sampleOptions\<lparr> AssetOptions.uniqueKey := Some ''left'' \<rparr>)
     \<noteq> createAssetIdFromOptions sampleHashString sampleSortedEntries sampleStringify
        (sampleOptions\<lparr> AssetOptions.uniqueKey := None, AssetOptions.hash := Some ''h'' \<rparr>)"
  using uniqueKey_separates [of "sampleOptions\<lparr> AssetOptions.uniqueKey := Some ''left'' \<rparr>"
      "sampleOptions\<lparr> AssetOptions.uniqueKey := None, AssetOptions.hash := Some ''h'' \<rparr>"
      sampleSortedEntries sampleStringify sampleHashString]
  by (simp add: sampleOptions_def sampleEnv_def assetIdString_def createAssetIdFromOptions_def
      sampleHashString_def sampleSortedEntries_def sampleStringify_def)

text \<open>
  Agreement on \<open>filePath\<close>, type, environment id, pipeline and query with distinct
  unique keys does not separate identities: with an injective \<open>hashString\<close>, two records
  whose \<open>idBase\<close> differs collide although both carry a unique key of their own, and an
  absent unique key collides with the empty one.
\<close>

theorem uniqueKey_collision_counterexample:
  "AssetOptions.filePath (sampleOptions\<lparr> idBase := Some ''a'', AssetOptions.uniqueKey := Some ''jse1k'' \<rparr>)
     = AssetOptions.filePath (sampleOptions\<lparr> idBase := Some ''ajse1'', AssetOptions.uniqueKey := Some ''k'' \<rparr>)
   \<and> AssetOptions.type (sampleOptions\<lparr> idBase := Some ''a'', AssetOptions.uniqueKey := Some ''jse1k'' \<rparr>)
     = AssetOptions.type (sampleOptions\<lparr> idBase := Some ''ajse1'', AssetOptions.uniqueKey := Some ''k'' \<rparr>)
   \<and> AssetOptions.env (sampleOptions\<lparr> idBase := Some ''a'', AssetOptions.uniqueKey := Some ''jse1k'' \<rparr>)
     = AssetOptions.env (sampleOptions\<lparr> idBase := Some ''ajse1'', AssetOptions.uniqueKey := Some ''k'' \<rparr>)
   \<and> AssetOptions.pipeline (sampleOptions\<lparr> idBase := Some ''a'', AssetOptions.uniqueKey := Some ''jse1k'' \<rparr>)
     = AssetOptions.pipeline (sampleOptions\<lparr> idBase := Some ''ajse1'', AssetOptions.uniqueKey := Some ''k'' \<rparr>)
   \<and> AssetOptions.query (sampleOptions\<lparr> idBase := Some ''a'', AssetOptions.uniqueKey := Some ''jse1k'' \<rparr>)
     = AssetOptions.query (sampleOptions\<lparr> idBase := Some ''ajse1'', AssetOptions.uniqueKey := Some ''k'' \<rparr>)
   \<and> AssetOptions.uniqueKey (sampleOptions\<lparr> idBase := Some ''a'', AssetOptions.uniqueKey := Some ''jse1k'' \<rparr>)
     \<noteq> AssetOptions.uniqueKey (sampleOptions\<lparr> idBase := Some ''ajse1'', AssetOptions.uniqueKey := Some ''k'' \<rparr>)
   \<and> createAssetIdFromOptions sampleHashString sampleSortedEntries sampleStringify
        (sampleOptions\<lparr> idBase := Some ''a'', AssetOptions.uniqueKey := Some ''jse1k'' \<rparr>)
     = createAssetIdFromOptions sampleHashString sampleSortedEntries sampleStringify
        (sampleOptions\<lparr> idBase := Some ''ajse1'', AssetOptions.uniqueKey := Some ''k'' \<rparr>)
   \<and> AssetOptions.uniqueKey (sampleOptions\<lparr> AssetOptions.uniqueKey := Some '''' \<rparr>)
     \<noteq> AssetOptions.uniqueKey sampleOptions
   \<and> createAssetIdFromOptions sampleHashString sampleSortedEntries sampleStringify
        (sampleOptions\<lparr> AssetOptions.uniqueKey := Some '''' \<rparr>)
     = createAssetIdFromOptions sampleHashString sampleSortedEntries sampleStringify
        sampleOptions"
  by (simp add: sampleOptions_def sampleEnv_def createAssetIdFromOptions_def assetIdString_def
      sampleHashString_def sampleSortedEntries_def sampleStringify_def)

text \<open>
  Claim C9. Asset identity is not injective in the file path and the type: the records
  with \<open>filePath\<close> \<open>'a'\<close>, type \<open>'bc'\<close> and with \<open>filePath\<close> \<open>'ab'\<close>, type \<open>'c'\<close>, equal
  in every other field, get the same identity for every \<open>hashString\<close>, because the parts
  are joined with nothing between them.
\<close>

theorem createAssetIdFromOptions_not_injective:
  "AssetOptions.filePath (sampleOptions\<lparr> AssetOptions.filePath := ''a'', AssetOptions.type := ''bc'' \<rparr>)
     \<noteq> AssetOptions.filePath (sampleOptions\<lparr> AssetOptions.filePath := ''ab'', AssetOptions.type := ''c'' \<rparr>)
   \<and> AssetOptions.type (sampleOptions\<lparr> AssetOptions.filePath := ''a'', AssetOptions.type := ''bc'' \<rparr>)
     \<noteq> AssetOptions.type (sampleOptions\<lparr> AssetOptions.filePath := ''ab'', AssetOptions.type := ''c'' \<rparr>)
   \<and> createAssetIdFromOptions hashString objectSortedEntries JSON_stringify
        (sampleOptions\<lparr> AssetOptions.filePath := ''a'', AssetOptions.type := ''bc'' \<rparr>)
     = createAssetIdFromOptions hashString objectSortedEntries JSON_stringify
        (sampleOptions\<lparr> AssetOptions.filePath := ''ab'', AssetOptions.type := ''c'' \<rparr>)"
  by (simp add: sampleOptions_def createAssetIdFromOptions_def assetIdString_def)

text \<open>
  Claim C7. The asset that \<open>createAsset\<close> returns has the supplied id when there is one
  and the id computed by \<open>createAssetIdFromOptions\<close> otherwise; left out, \<open>dependencies\<close>
  becomes the empty map, \<open>sideEffects\<close> and \<open>isBundleSplittable\<close> become true and \<open>meta\<close>
  becomes the empty object; supplied, each of the four is kept.
\<close>

theorem createAsset_defaults:
  "Asset.id' (createAsset hashString objectSortedEntries JSON_stringify BundleBehaviorMap options)
     = (case AssetOptions.id' options of
          Some i \<Rightarrow> i
        | None \<Rightarrow> createAssetIdFromOptions hashString objectSortedEntries JSON_stringify options)
   \<and> Asset.dependencies (createAsset hashString objectSortedEntries JSON_stringify BundleBehaviorMap
        (options\<lparr> AssetOptions.dependencies := None \<rparr>)) = Map.empty
   \<and> Asset.sideEffects (createAsset hashString objectSortedEntries JSON_stringify BundleBehaviorMap
        (options\<lparr> AssetOptions.sideEffects := None \<rparr>)) = True
   \<and> Asset.isBundleSplittable (createAsset hashString objectSortedEntries JSON_stringify
        BundleBehaviorMap (options\<lparr> AssetOptions.isBundleSplittable := None \<rparr>)) = True
   \<and> Asset.meta (createAsset hashString objectSortedEntries JSON_stringify BundleBehaviorMap
        (options\<lparr> AssetOptions.meta := None \<rparr>)) = []
   \<and> Asset.dependencies (createAsset hashString objectSortedEntries JSON_stringify BundleBehaviorMap
        (options\<lparr> AssetOptions.dependencies := Some d \<rparr>)) = d
   \<and> Asset.sideEffects (createAsset hashString objectSortedEntries JSON_stringify BundleBehaviorMap
        (options\<lparr> AssetOptions.sideEffects := Some s \<rparr>)) = s
   \<and> Asset.isBundleSplittable (createAsset hashString objectSortedEntries JSON_stringify
        BundleBehaviorMap (options\<lparr> AssetOptions.isBundleSplittable := Some b \<rparr>)) = b
   \<and> Asset.meta (createAsset hashString objectSortedEntries JSON_stringify BundleBehaviorMap
        (options\<lparr> AssetOptions.meta := Some m \<rparr>)) = m"
  by (simp add: createAsset_def)

section \<open>Properties of generateFromAST\<close>

lemma impl_results [simp]:
  "generateResults (snd (generateFromAST_impl loadPlugin asset st)) = generateResults st"
  by (simp add: generateFromAST_impl_def nullthrows_def setStream_def setBlob_def Let_def
      split: sum.splits option.splits)








section \<open>Properties of the invalidation digest\<close>

lemma getInvalidationId_known: "knownType i \<Longrightarrow> getInvalidationId i = Inr (idOf i)"
  by (auto simp: knownType_def getInvalidationId_def idOf_def)

lemma getInvalidationId_unknown:
  "\<not> knownType i \<Longrightarrow> getInvalidationId i = Inl (Error (''Unknown invalidation type: '' @ RequestInvalidation.type i))"
  by (auto simp: knownType_def getInvalidationId_def)

lemma insertSorted_known:
  "knownType x \<Longrightarrow> \<forall>y\<in>set ys. knownType y \<Longrightarrow>
     \<exists>zs. insertSorted compareInvalidations x ys = Inr zs \<and> mset zs = add_mset x (mset ys)
        \<and> (sorted (map idOf ys) \<longrightarrow> sorted (map idOf zs))"
proof (induction ys)
  case Nil
  then show ?case by simp
next
  case (Cons y ys)
  then obtain zs where zs: "insertSorted compareInvalidations x ys = Inr zs"
      "mset zs = add_mset x (mset ys)" "sorted (map idOf ys) \<longrightarrow> sorted (map idOf zs)"
    by auto
  have cmp: "compareInvalidations x y = Inr (if idOf x < idOf y then - 1 else 1)"
    using Cons.prems by (simp add: compareInvalidations_def getInvalidationId_known)
  show ?case
  proof (cases "idOf x < idOf y")
    case True
    then show ?thesis using cmp by auto
  next
    case False
    have "set zs = insert x (set ys)"
      using zs(2) by (metis set_mset_add_mset_insert set_mset_mset)
    then show ?thesis using cmp False zs by auto
  qed
qed

lemma sortInto_known:
  "\<forall>y\<in>set acc. knownType y \<Longrightarrow> \<forall>y\<in>set xs. knownType y \<Longrightarrow>
    \<exists>zs. sortInto compareInvalidations acc xs = Inr zs \<and> mset zs = mset acc + mset xs
       \<and> (sorted (map idOf acc) \<longrightarrow> sorted (map idOf zs))"
proof (induction xs arbitrary: acc)
  case Nil
  then show ?case by simp
next
  case (Cons x xs)
  from Cons.prems obtain acc' where a: "insertSorted compareInvalidations x acc = Inr acc'"
      "mset acc' = add_mset x (mset acc)" "sorted (map idOf acc) \<longrightarrow> sorted (map idOf acc')"
    using insertSorted_known [of x acc] by auto
  have "set acc' = insert x (set acc)"
    using a(2) by (metis set_mset_add_mset_insert set_mset_mset)
  then have k: "\<forall>y\<in>set acc'. knownType y"
    using Cons.prems by simp
  from Cons.IH [OF k] Cons.prems a show ?case
    by auto
qed

lemma array_sort_known:
  assumes "\<forall>y\<in>set xs. knownType y"
  shows "\<exists>zs. array_sort compareInvalidations xs = Inr zs \<and> mset zs = mset xs
           \<and> sorted (map idOf zs)"
  using sortInto_known [of "[]" xs] assms by (auto simp: array_sort_def)

lemma idOf_inj:
  assumes "knownType x" "knownType y" "idOf x = idOf y"
  shows "RequestInvalidation.type x = RequestInvalidation.type y
     \<and> (RequestInvalidation.type x = ''file''
          \<longrightarrow> RequestInvalidation.filePath x = RequestInvalidation.filePath y)
     \<and> (RequestInvalidation.type x \<noteq> ''file'' \<longrightarrow> key x = key y)"
  using assms by (auto simp: knownType_def idOf_def getInvalidationId_def)

lemma hashInvalidations_cong:
  assumes "map idOf xs = map idOf ys" "\<forall>i\<in>set xs. knownType i" "\<forall>i\<in>set ys. knownType i"
  shows "hashInvalidations hashFile hashFromOption options xs hashes hashCache
       = hashInvalidations hashFile hashFromOption options ys hashes hashCache"
  using assms
proof (induction xs arbitrary: ys hashes hashCache)
  case Nil
  then show ?case by simp
next
  case (Cons x xs)
  then obtain y ys' where ys: "ys = y # ys'" by (cases ys) auto
  with Cons.prems have eq: "idOf x = idOf y" "map idOf xs = map idOf ys'"
    and k: "knownType x" "knownType y" "\<forall>i\<in>set xs. knownType i" "\<forall>i\<in>set ys'. knownType i"
    by auto
  note inj = idOf_inj [OF k(1) k(2) eq(1)]
  note IH = Cons.IH [OF eq(2) k(3) k(4)]
  have "hashInvalidations hashFile hashFromOption options (x # xs) hashes hashCache
      = hashInvalidations hashFile hashFromOption options (y # xs) hashes hashCache"
  proof (cases "RequestInvalidation.type x = ''file''")
    case True
    with inj have "RequestInvalidation.type y = ''file''"
        "RequestInvalidation.filePath x = RequestInvalidation.filePath y"
      by simp_all
    with True show ?thesis by (simp cong: option.case_cong)
  next
    case False
    with inj have "RequestInvalidation.type y = RequestInvalidation.type x" "key x = key y"
      by simp_all
    with False show ?thesis by simp
  qed
  also have "\<dots> = hashInvalidations hashFile hashFromOption options (y # ys') hashes hashCache"
    by (simp add: IH Let_def cong: option.case_cong sum.case_cong)
  finally show ?case
    unfolding ys .
qed

lemma sorted_ids_eq:
  assumes "mset xs = mset ys" "sorted (map idOf xs)" "sorted (map idOf ys)"
  shows "map idOf xs = map idOf ys"
proof -
  have "mset (map idOf xs) = mset (map idOf ys)" using assms(1) by (metis mset_map)
  then show ?thesis
    using assms(2,3) by (metis properties_for_sort)
qed

lemma cacheExtends_refl: "cacheExtends hashFile files c c"
  by (simp add: cacheExtends_def)

lemma cacheExtends_kept:
  "cacheExtends hashFile files c c' \<Longrightarrow> c p = Some h \<Longrightarrow> c' p = Some h"
  unfolding cacheExtends_def by blast

lemma cacheExtends_new:
  "cacheExtends hashFile files c c' \<Longrightarrow> c p = None
     \<Longrightarrow> c' p = None \<or> c' p = Some (hashFile files p)"
  unfolding cacheExtends_def by blast

lemma cacheExtends_trans:
  assumes "cacheExtends hashFile files c c1" "cacheExtends hashFile files c1 c2"
  shows "cacheExtends hashFile files c c2"
  unfolding cacheExtends_def
proof (intro allI conjI impI)
  fix p h assume "c p = Some h"
  then have "c1 p = Some h" using assms(1) by (rule cacheExtends_kept [rotated])
  then show "c2 p = Some h" using assms(2) by (rule cacheExtends_kept [rotated])
next
  fix p assume n: "c p = None"
  show "c2 p = None \<or> c2 p = Some (hashFile files p)"
  proof (cases "c1 p")
    case None
    with assms(2) show ?thesis by (rule cacheExtends_new)
  next
    case (Some v)
    from cacheExtends_new [OF assms(1) n] Some have "c1 p = Some (hashFile files p)" by simp
    with assms(2) have "c2 p = Some (hashFile files p)" by (rule cacheExtends_kept)
    then show ?thesis by simp
  qed
qed

lemma cacheExtends_store:
  assumes "c p = None"
  shows "cacheExtends hashFile files c (c(p \<mapsto> hashFile files p))"
  using assms by (simp add: cacheExtends_def)

lemma hashInvalidations_extends:
  "cacheExtends hashFile (inputFS options) hashCache
     (snd (hashInvalidations hashFile hashFromOption options xs hashes hashCache))"
proof (induction xs arbitrary: hashes hashCache)
  case Nil
  then show ?case by (simp add: cacheExtends_refl)
next
  case (Cons x xs)
  show ?case
  proof (cases "RequestInvalidation.type x = ''file''")
    case True
    show ?thesis
    proof (cases "hashCache (RequestInvalidation.filePath x)")
      case None
      let ?c1 = "hashCache(RequestInvalidation.filePath x
          \<mapsto> hashFile (inputFS options) (RequestInvalidation.filePath x))"
      have st: "cacheExtends hashFile (inputFS options) hashCache ?c1"
        using None by (rule cacheExtends_store)
      show ?thesis
      proof (cases "hashFile (inputFS options) (RequestInvalidation.filePath x)")
        case (Inl e)
        then have step: "hashInvalidations hashFile hashFromOption options (x # xs) hashes hashCache
            = (Inl e, ?c1)"
          using True None by (simp add: Let_def)
        show ?thesis unfolding step snd_conv by (rule st)
      next
        case (Inr h)
        have "cacheExtends hashFile (inputFS options) ?c1
            (snd (hashInvalidations hashFile hashFromOption options xs (hashes @ h) ?c1))"
          by (rule Cons.IH)
        with st have ext: "cacheExtends hashFile (inputFS options) hashCache
            (snd (hashInvalidations hashFile hashFromOption options xs (hashes @ h) ?c1))"
          by (rule cacheExtends_trans)
        have step: "hashInvalidations hashFile hashFromOption options (x # xs) hashes hashCache
            = hashInvalidations hashFile hashFromOption options xs (hashes @ h) ?c1"
          using True None Inr by (simp add: Let_def)
        show ?thesis unfolding step using ext .
      qed
    next
      case (Some v)
      then show ?thesis
        using True Cons.IH by (cases v) (simp_all add: cacheExtends_refl)
    qed
  next
    case False
    then show ?thesis using Cons.IH by (simp add: cacheExtends_refl)
  qed
qed

lemma hashInvalidations_extended:
  assumes "cacheExtends hashFile (inputFS options) c c'"
  shows "fst (hashInvalidations hashFile hashFromOption options xs hashes c')
       = fst (hashInvalidations hashFile hashFromOption options xs hashes c)"
  using assms
proof (induction xs arbitrary: hashes c c')
  case Nil
  then show ?case by simp
next
  case (Cons x xs)
  show ?case
  proof (cases "RequestInvalidation.type x = ''file''")
    case True
    let ?p = "RequestInvalidation.filePath x"
    let ?v = "hashFile (inputFS options) ?p"
    show ?thesis
    proof (cases "c ?p")
      case None
      have c': "c' ?p = None \<or> c' ?p = Some ?v"
        using Cons.prems None by (rule cacheExtends_new)
      show ?thesis
      proof (cases ?v)
        case (Inl e)
        then show ?thesis using True None c' by (auto simp: Let_def)
      next
        case (Inr h)
        have e1: "cacheExtends hashFile (inputFS options) (c(?p \<mapsto> ?v)) (c'(?p \<mapsto> ?v))"
          using Cons.prems by (simp add: cacheExtends_def)
        have e2: "c' ?p = Some ?v \<Longrightarrow> cacheExtends hashFile (inputFS options) (c(?p \<mapsto> ?v)) c'"
          using Cons.prems by (simp add: cacheExtends_def)
        from c' show ?thesis
        proof
          assume n: "c' ?p = None"
          show ?thesis using True None n Inr Cons.IH [OF e1, of "hashes @ h"]
            by (simp add: Let_def del: fun_upd_apply)
        next
          assume s: "c' ?p = Some ?v"
          show ?thesis using True None s Inr Cons.IH [OF e2 [OF s], of "hashes @ h"]
            by (simp add: Let_def del: fun_upd_apply)
        qed
      qed
    next
      case (Some v)
      have c': "c' ?p = Some v"
        using Cons.prems Some by (rule cacheExtends_kept)
      show ?thesis
        using True Some c' Cons.IH [OF Cons.prems] by (cases v) (simp_all del: fun_upd_apply)
    qed
  next
    case False
    then show ?thesis using Cons.IH [OF Cons.prems] by simp
  qed
qed

lemma getInvalidationHash_sorted:
  assumes "invalidations \<noteq> []" "array_sort compareInvalidations invalidations = Inr sorted_invs"
  shows "snd (getInvalidationHash hashString hashFile hashFromOption invalidations options hashCache)
       = snd (hashInvalidations hashFile hashFromOption options sorted_invs '''' hashCache)
     \<and> fst (getInvalidationHash hashString hashFile hashFromOption invalidations options hashCache)
       = (case fst (hashInvalidations hashFile hashFromOption options sorted_invs '''' hashCache) of
            Inl e \<Rightarrow> Inl e | Inr hashes \<Rightarrow> Inr (hashString hashes))"
  using assms
  by (cases "hashInvalidations hashFile hashFromOption options sorted_invs '''' hashCache")
     (auto simp: getInvalidationHash_def split: sum.splits)

text \<open>
  Claim C1. For entries of the three known kinds, \<open>getInvalidationHash\<close> started from
  one build cache returns the same outcome (the digest, or the error of a file that
  cannot be hashed) and leaves the same cache for every reordering of the entries;
  hashing the reordered entries after the first call, on the cache that call left, gives
  that outcome again. For no entries it returns the empty string, which is not passed
  through \<open>hashString\<close>, and leaves the cache alone.
\<close>

theorem getInvalidationHash_order_independent:
  assumes "mset xs = mset ys"
    and "\<forall>i\<in>set xs. RequestInvalidation.type i \<in> {''file'', ''env'', ''option''}"
  shows "getInvalidationHash hashString hashFile hashFromOption xs options hashCache
       = getInvalidationHash hashString hashFile hashFromOption ys options hashCache
     \<and> fst (getInvalidationHash hashString hashFile hashFromOption ys options
            (snd (getInvalidationHash hashString hashFile hashFromOption xs options hashCache)))
       = fst (getInvalidationHash hashString hashFile hashFromOption xs options hashCache)
     \<and> getInvalidationHash hashString hashFile hashFromOption [] options hashCache
       = (Inr '''', hashCache)"
proof -
  have kx: "\<forall>i\<in>set xs. knownType i" using assms(2) by (auto simp: knownType_def)
  have "set xs = set ys" using assms(1) by (metis set_mset_mset)
  then have ky: "\<forall>i\<in>set ys. knownType i" using kx by simp
  obtain sx where sx: "array_sort compareInvalidations xs = Inr sx" "mset sx = mset xs"
      "sorted (map idOf sx)"
    using array_sort_known [OF kx] by auto
  obtain sy where sy: "array_sort compareInvalidations ys = Inr sy" "mset sy = mset ys"
      "sorted (map idOf sy)"
    using array_sort_known [OF ky] by auto
  have ids: "map idOf sx = map idOf sy"
    using sx sy assms(1) by (intro sorted_ids_eq) simp_all
  have ksx: "\<forall>i\<in>set sx. knownType i" using kx sx(2) by (metis set_mset_mset)
  have ksy: "\<forall>i\<in>set sy. knownType i" using ky sy(2) by (metis set_mset_mset)
  have loop: "\<And>c. hashInvalidations hashFile hashFromOption options sx '''' c
            = hashInvalidations hashFile hashFromOption options sy '''' c"
    by (rule hashInvalidations_cong [OF ids ksx ksy])
  have len: "(length xs = 0) = (length ys = 0)"
    using assms(1) by (metis mset_eq_length)
  have same: "getInvalidationHash hashString hashFile hashFromOption xs options hashCache
       = getInvalidationHash hashString hashFile hashFromOption ys options hashCache"
    using sx(1) sy(1) loop len by (simp add: getInvalidationHash_def)
  have again: "fst (getInvalidationHash hashString hashFile hashFromOption ys options
            (snd (getInvalidationHash hashString hashFile hashFromOption xs options hashCache)))
       = fst (getInvalidationHash hashString hashFile hashFromOption xs options hashCache)"
  proof (cases "xs = []")
    case True
    then have "ys = []" using assms(1) by simp
    with True show ?thesis by (simp add: getInvalidationHash_def)
  next
    case False
    then have ne: "ys \<noteq> []" using assms(1) by auto
    let ?c1 = "snd (hashInvalidations hashFile hashFromOption options sx '''' hashCache)"
    have c1: "snd (getInvalidationHash hashString hashFile hashFromOption xs options hashCache) = ?c1"
      using getInvalidationHash_sorted [OF False sx(1)] by simp
    have ext: "cacheExtends hashFile (inputFS options) hashCache ?c1"
      by (rule hashInvalidations_extends)
    have "fst (hashInvalidations hashFile hashFromOption options sx [] ?c1)
        = fst (hashInvalidations hashFile hashFromOption options sx [] hashCache)"
      using ext by (rule hashInvalidations_extended)
    then have l: "fst (hashInvalidations hashFile hashFromOption options sy [] ?c1)
        = fst (hashInvalidations hashFile hashFromOption options sx [] hashCache)"
      using loop [of ?c1] by simp
    have fy: "fst (getInvalidationHash hashString hashFile hashFromOption ys options ?c1)
       = (case fst (hashInvalidations hashFile hashFromOption options sy [] ?c1) of
            Inl e \<Rightarrow> Inl e | Inr hashes \<Rightarrow> Inr (hashString hashes))"
      using getInvalidationHash_sorted [OF ne sy(1)] by simp
    have fx: "fst (getInvalidationHash hashString hashFile hashFromOption xs options hashCache)
       = (case fst (hashInvalidations hashFile hashFromOption options sx [] hashCache) of
            Inl e \<Rightarrow> Inl e | Inr hashes \<Rightarrow> Inr (hashString hashes))"
      using getInvalidationHash_sorted [OF False sx(1)] by simp
    show ?thesis
      unfolding c1 fy fx l ..
  qed
  have none: "getInvalidationHash hashString hashFile hashFromOption [] options hashCache
       = (Inr '''', hashCache)"
    by (simp add: getInvalidationHash_def)
  from same again none show ?thesis by blast
qed

theorem getInvalidationHash_order_independent_witness:
  "getInvalidationHash sampleHashString sampleHashFile sampleHashFromOption sampleInvalidations
      sampleParcelOptions Map.empty
   = getInvalidationHash sampleHashString sampleHashFile sampleHashFromOption (rev sampleInvalidations)
      sampleParcelOptions Map.empty
   \<and> fst (getInvalidationHash sampleHashString sampleHashFile sampleHashFromOption (rev sampleInvalidations)
      sampleParcelOptions Map.empty) = Inr ''NODE_ENV:production<A><B>mode:development''"
proof -
  have h1: "mset sampleInvalidations = mset (rev sampleInvalidations)"
    by simp
  have h2: "\<forall>i\<in>set sampleInvalidations.
      RequestInvalidation.type i \<in> {''file'', ''env'', ''option''}"
    by (simp add: sampleInvalidations_def)
  have v: "fst (getInvalidationHash sampleHashString sampleHashFile sampleHashFromOption
      (rev sampleInvalidations) sampleParcelOptions Map.empty)
      = Inr ''NODE_ENV:production<A><B>mode:development''"
    by (simp add: getInvalidationHash_def array_sort_def compareInvalidations_def
        getInvalidationId_def sampleInvalidations_def sampleParcelOptions_def
        sampleHashFile_def sampleHashFromOption_def sampleHashString_def
        envProperty_def optionProperty_def objectPrototype_def)
  show ?thesis
    using getInvalidationHash_order_independent [OF h1 h2, of sampleHashString sampleHashFile
        sampleHashFromOption sampleParcelOptions Map.empty] v
    by simp
qed

lemma insertSorted_unknown_new:
  "\<not> knownType x \<Longrightarrow>
     insertSorted compareInvalidations x (y # ys)
       = Inl (Error (''Unknown invalidation type: '' @ RequestInvalidation.type x))"
  by (simp add: compareInvalidations_def getInvalidationId_unknown)

lemma insertSorted_unknown_old:
  "knownType x \<Longrightarrow> \<not> knownType y \<Longrightarrow>
     insertSorted compareInvalidations x (y # ys)
       = Inl (Error (''Unknown invalidation type: '' @ RequestInvalidation.type y))"
  by (simp add: compareInvalidations_def getInvalidationId_unknown getInvalidationId_known)

lemma sortInto_unknown:
  assumes "length acc \<le> 1 \<or> (\<forall>y\<in>set acc. knownType y)"
    and "\<exists>j\<in>set acc \<union> set xs. \<not> knownType j"
    and "2 \<le> length acc + length xs"
  shows "\<exists>j\<in>set acc \<union> set xs. \<not> knownType j \<and>
           sortInto compareInvalidations acc xs
             = Inl (Error (''Unknown invalidation type: '' @ RequestInvalidation.type j))"
  using assms
proof (induction xs arbitrary: acc)
  case Nil
  then show ?case by auto
next
  case (Cons x xs)
  show ?case
  proof (cases "\<forall>y\<in>set acc. knownType y")
    case allk: True
    show ?thesis
    proof (cases "knownType x")
      case True
      obtain zs where zs: "insertSorted compareInvalidations x acc = Inr zs"
          "mset zs = add_mset x (mset acc)"
        using insertSorted_known [OF True allk] by auto
      have setzs: "set zs = insert x (set acc)"
        using zs(2) by (metis set_mset_add_mset_insert set_mset_mset)
      have lenzs: "length zs = Suc (length acc)"
        using zs(2) by (metis mset_eq_length length_Cons mset.simps(2))
      have 1: "length zs \<le> 1 \<or> (\<forall>y\<in>set zs. knownType y)"
        using setzs True allk by simp
      have 2: "\<exists>j\<in>set zs \<union> set xs. \<not> knownType j"
        using Cons.prems(2) setzs by auto
      have "xs \<noteq> []" using Cons.prems(2) True allk by auto
      then have 3: "2 \<le> length zs + length xs"
        using lenzs by (cases xs) auto
      from Cons.IH [OF 1 2 3] show ?thesis
        using zs(1) setzs by auto
    next
      case False
      show ?thesis
      proof (cases acc)
        case Nil
        have 1: "length [x] \<le> 1 \<or> (\<forall>y\<in>set [x]. knownType y)" by simp
        have 2: "\<exists>j\<in>set [x] \<union> set xs. \<not> knownType j" using False by simp
        have 3: "2 \<le> length [x] + length xs" using Cons.prems(3) Nil by simp
        from Cons.IH [OF 1 2 3] show ?thesis
          using Nil by auto
      next
        case (Cons y ys)
        have "sortInto compareInvalidations acc (x # xs)
            = Inl (Error (''Unknown invalidation type: '' @ RequestInvalidation.type x))"
          unfolding Cons using insertSorted_unknown_new [OF False, of y ys]
          by (simp del: insertSorted.simps)
        then show ?thesis
          using False by auto
      qed
    qed
  next
    case False
    with Cons.prems(1) obtain y where acc: "acc = [y]" and y: "\<not> knownType y"
      by (cases acc) auto
    show ?thesis
    proof (cases "knownType x")
      case True
      have "sortInto compareInvalidations acc (x # xs)
          = Inl (Error (''Unknown invalidation type: '' @ RequestInvalidation.type y))"
        unfolding acc using insertSorted_unknown_old [OF True y, of "[]"]
        by (simp del: insertSorted.simps)
      then show ?thesis using acc y by auto
    next
      case False
      have "sortInto compareInvalidations acc (x # xs)
          = Inl (Error (''Unknown invalidation type: '' @ RequestInvalidation.type x))"
        unfolding acc using insertSorted_unknown_new [OF False, of y "[]"]
        by (simp del: insertSorted.simps)
      then show ?thesis using False by auto
    qed
  qed
qed

text \<open>
  Claim C5. For an entry whose type is none of \<open>'file'\<close>, \<open>'env'\<close> and \<open>'option'\<close>,
  \<open>getInvalidationId\<close> throws the unknown-type error; \<open>getInvalidationHash\<close> on entries
  that include it throws the unknown-type error of such an entry, with no digest and
  the build cache untouched.
\<close>

theorem unknown_invalidation_type_fatal:
  assumes "RequestInvalidation.type i \<notin> {''file'', ''env'', ''option''}"
    and "i \<in> set invalidations"
  shows "getInvalidationId i
           = Inl (Error (''Unknown invalidation type: '' @ RequestInvalidation.type i))
     \<and> (\<exists>j\<in>set invalidations. RequestInvalidation.type j \<notin> {''file'', ''env'', ''option''}
          \<and> getInvalidationHash hashString hashFile hashFromOption invalidations options hashCache
              = (Inl (Error (''Unknown invalidation type: '' @ RequestInvalidation.type j)),
                 hashCache))"
proof -
  have unk: "\<not> knownType i" using assms(1) by (simp add: knownType_def)
  have ktype: "\<And>j. \<not> knownType j \<Longrightarrow> RequestInvalidation.type j \<notin> {''file'', ''env'', ''option''}"
    by (simp add: knownType_def)
  have first: "getInvalidationId i
           = Inl (Error (''Unknown invalidation type: '' @ RequestInvalidation.type i))"
    using unk by (rule getInvalidationId_unknown)
  have second: "\<exists>j\<in>set invalidations. RequestInvalidation.type j \<notin> {''file'', ''env'', ''option''}
          \<and> getInvalidationHash hashString hashFile hashFromOption invalidations options hashCache
              = (Inl (Error (''Unknown invalidation type: '' @ RequestInvalidation.type j)),
                 hashCache)"
  proof (cases "2 \<le> length invalidations")
    case True
    have "\<exists>j\<in>set [] \<union> set invalidations. \<not> knownType j \<and>
           sortInto compareInvalidations [] invalidations
             = Inl (Error (''Unknown invalidation type: '' @ RequestInvalidation.type j))"
      using unk assms(2) True by (intro sortInto_unknown) auto
    then obtain j where j: "j \<in> set invalidations" "\<not> knownType j"
        "sortInto compareInvalidations [] invalidations
             = Inl (Error (''Unknown invalidation type: '' @ RequestInvalidation.type j))"
      by auto
    have "getInvalidationHash hashString hashFile hashFromOption invalidations options hashCache
              = (Inl (Error (''Unknown invalidation type: '' @ RequestInvalidation.type j)),
                 hashCache)"
      using j(3) True by (auto simp: getInvalidationHash_def array_sort_def)
    then show ?thesis using j(1) ktype [OF j(2)] by blast
  next
    case False
    then have "length invalidations \<le> 1" by simp
    then have "invalidations = [i]"
      using assms(2) by (cases invalidations) auto
    moreover have "getInvalidationHash hashString hashFile hashFromOption [i] options hashCache
              = (Inl (Error (''Unknown invalidation type: '' @ RequestInvalidation.type i)),
                 hashCache)"
      using assms(1) by (simp add: getInvalidationHash_def array_sort_def)
    ultimately show ?thesis using assms(1) by simp
  qed
  from first second show ?thesis by blast
qed

theorem unknown_invalidation_type_fatal_witness:
  "getInvalidationId \<lparr> RequestInvalidation.type = ''glob'', filePath = '''', key = ''*.css'' \<rparr>
     = Inl (Error ''Unknown invalidation type: glob'')
   \<and> getInvalidationHash sampleHashString sampleHashFile sampleHashFromOption
        (sampleInvalidations
           @ [\<lparr> RequestInvalidation.type = ''glob'', filePath = '''', key = ''*.css'' \<rparr>])
        sampleParcelOptions Map.empty
     = (Inl (Error ''Unknown invalidation type: glob''), Map.empty)"
proof -
  have h1: "RequestInvalidation.type
      \<lparr> RequestInvalidation.type = ''glob'', filePath = '''', key = ''*.css'' \<rparr>
        \<notin> {''file'', ''env'', ''option''}"
    by simp
  have h2: "\<lparr> RequestInvalidation.type = ''glob'', filePath = '''', key = ''*.css'' \<rparr>
      \<in> set (sampleInvalidations
           @ [\<lparr> RequestInvalidation.type = ''glob'', filePath = '''', key = ''*.css'' \<rparr>])"
    by simp
  show ?thesis
    using unknown_invalidation_type_fatal [OF h1 h2, of sampleHashString sampleHashFile
        sampleHashFromOption sampleParcelOptions Map.empty]
    by (auto simp: sampleInvalidations_def sampleHashString_def)
qed

lemma insertSorted_subset:
  "insertSorted comparefn x ys = Inr zs \<Longrightarrow> set zs \<subseteq> insert x (set ys)"
  by (induction ys arbitrary: zs) (auto split: sum.splits if_splits)

lemma sortInto_subset:
  "sortInto comparefn acc xs = Inr zs \<Longrightarrow> set zs \<subseteq> set acc \<union> set xs"
proof (induction xs arbitrary: acc)
  case Nil
  then show ?case by simp
next
  case (Cons x xs)
  then obtain acc' where a: "insertSorted comparefn x acc = Inr acc'"
      "sortInto comparefn acc' xs = Inr zs"
    by (auto split: sum.splits)
  from Cons.IH [OF a(2)] insertSorted_subset [OF a(1)] show ?case by auto
qed

lemma envProperty_unset_or_empty:
  assumes "objectPrototype k = None"
  shows "envProperty (e(k := None)) k' = envProperty (e(k \<mapsto> '''')) k'"
  using assms by (simp add: envProperty_def)

lemma optionProperty_env_update:
  assumes "k' \<noteq> ''env''"
  shows "optionProperty (options\<lparr> ParcelOptions.env := e1 \<rparr>) k'
       = optionProperty (options\<lparr> ParcelOptions.env := e2 \<rparr>) k'"
  using assms by (simp add: optionProperty_def)

lemma hashInvalidations_env_empty:
  assumes "objectPrototype k = None"
    and "\<forall>i\<in>set xs. RequestInvalidation.type i = ''option'' \<longrightarrow> key i \<noteq> ''env''"
  shows "hashInvalidations hashFile hashFromOption
      (options\<lparr> ParcelOptions.env := (ParcelOptions.env options)(k := None) \<rparr>) xs hashes hashCache
   = hashInvalidations hashFile hashFromOption
      (options\<lparr> ParcelOptions.env := (ParcelOptions.env options)(k \<mapsto> '''') \<rparr>) xs hashes hashCache"
  using assms(2)
proof (induction xs arbitrary: hashes hashCache)
  case Nil
  then show ?case by simp
next
  case (Cons x xs)
  have IH: "\<And>hashes hashCache. hashInvalidations hashFile hashFromOption
      (options\<lparr> ParcelOptions.env := (ParcelOptions.env options)(k := None) \<rparr>) xs hashes hashCache
   = hashInvalidations hashFile hashFromOption
      (options\<lparr> ParcelOptions.env := (ParcelOptions.env options)(k \<mapsto> '''') \<rparr>) xs hashes hashCache"
    using Cons.prems by (intro Cons.IH) simp
  have envp: "envProperty ((ParcelOptions.env options)(k := None)) (key x)
      = envProperty ((ParcelOptions.env options)(k \<mapsto> '''')) (key x)"
    using assms(1) by (rule envProperty_unset_or_empty)
  have optp: "RequestInvalidation.type x = ''option'' \<Longrightarrow>
      optionProperty (options\<lparr> ParcelOptions.env := (ParcelOptions.env options)(k := None) \<rparr>) (key x)
      = optionProperty (options\<lparr> ParcelOptions.env := (ParcelOptions.env options)(k \<mapsto> '''') \<rparr>)
          (key x)"
    using Cons.prems by (intro optionProperty_env_update) simp
  show ?case
    using IH envp optp
    by (simp add: Let_def del: fun_upd_apply cong: option.case_cong sum.case_cong)
qed

text \<open>
  Claim C10, as the code has it. For a variable whose name is not the name of a property
  that a plain object inherits, and a list of entries without an \<open>'option'\<close> entry keyed
  \<open>'env'\<close>, \<open>getInvalidationHash\<close> returns the same outcome when the variable is absent
  from \<open>options.env\<close> as when it is present with the empty string as its value.
\<close>

theorem getInvalidationHash_env_unset_or_empty:
  assumes "objectPrototype k = None"
    and "\<forall>i\<in>set invalidations. RequestInvalidation.type i = ''option'' \<longrightarrow> key i \<noteq> ''env''"
  shows "getInvalidationHash hashString hashFile hashFromOption invalidations
      (options\<lparr> ParcelOptions.env := (ParcelOptions.env options)(k := None) \<rparr>) hashCache
   = getInvalidationHash hashString hashFile hashFromOption invalidations
      (options\<lparr> ParcelOptions.env := (ParcelOptions.env options)(k \<mapsto> '''') \<rparr>) hashCache"
proof (cases "array_sort compareInvalidations invalidations")
  case (Inl e)
  then show ?thesis by (simp add: getInvalidationHash_def)
next
  case (Inr sorted_invs)
  have "sortInto compareInvalidations [] invalidations = Inr sorted_invs"
    using Inr by (simp add: array_sort_def)
  then have "set sorted_invs \<subseteq> set [] \<union> set invalidations"
    by (rule sortInto_subset)
  then have "\<forall>i\<in>set sorted_invs. RequestInvalidation.type i = ''option'' \<longrightarrow> key i \<noteq> ''env''"
    using assms(2) by auto
  then show ?thesis
    using Inr hashInvalidations_env_empty [OF assms(1), of sorted_invs hashFile hashFromOption options]
    by (simp add: getInvalidationHash_def)
qed

theorem getInvalidationHash_env_unset_or_empty_witness:
  "getInvalidationHash sampleHashString sampleHashFile sampleHashFromOption sampleInvalidations
      (sampleParcelOptions\<lparr> ParcelOptions.env :=
          (ParcelOptions.env sampleParcelOptions)(''NODE_ENV'' := None) \<rparr>) Map.empty
   = getInvalidationHash sampleHashString sampleHashFile sampleHashFromOption sampleInvalidations
      (sampleParcelOptions\<lparr> ParcelOptions.env :=
          (ParcelOptions.env sampleParcelOptions)(''NODE_ENV'' \<mapsto> '''') \<rparr>) Map.empty
   \<and> fst (getInvalidationHash sampleHashString sampleHashFile sampleHashFromOption sampleInvalidations
      (sampleParcelOptions\<lparr> ParcelOptions.env :=
          (ParcelOptions.env sampleParcelOptions)(''NODE_ENV'' := None) \<rparr>) Map.empty)
     = Inr ''NODE_ENV:<A><B>mode:development''"
proof -
  have h1: "objectPrototype ''NODE_ENV'' = None"
    by (simp add: objectPrototype_def)
  have h2: "\<forall>i\<in>set sampleInvalidations.
      RequestInvalidation.type i = ''option'' \<longrightarrow> key i \<noteq> ''env''"
    by (simp add: sampleInvalidations_def)
  have v: "fst (getInvalidationHash sampleHashString sampleHashFile sampleHashFromOption
      sampleInvalidations
      (sampleParcelOptions\<lparr> ParcelOptions.env :=
          (ParcelOptions.env sampleParcelOptions)(''NODE_ENV'' := None) \<rparr>) Map.empty)
     = Inr ''NODE_ENV:<A><B>mode:development''"
    by (simp add: getInvalidationHash_def array_sort_def compareInvalidations_def
        getInvalidationId_def sampleInvalidations_def sampleParcelOptions_def
        sampleHashFile_def sampleHashFromOption_def sampleHashString_def
        envProperty_def optionProperty_def objectPrototype_def)
  show ?thesis
    using getInvalidationHash_env_unset_or_empty [OF h1 h2, of sampleHashString sampleHashFile
        sampleHashFromOption sampleParcelOptions Map.empty] v
    by simp
qed

text \<open>
  An absent variable named \<open>toString\<close> reads the inherited function, whose text is
  hashed, while the empty one gives the empty string; and with an \<open>'option'\<close> entry
  keyed \<open>'env'\<close> the env object itself is hashed, so a \<open>hashFromOption\<close> that renders
  the variable tells the two apart.
\<close>

theorem getInvalidationHash_env_counterexample:
  "getInvalidationHash sampleHashString sampleHashFile sampleHashFromOption
      [\<lparr> RequestInvalidation.type = ''env'', filePath = '''', key = ''toString'' \<rparr>]
      (sampleParcelOptions\<lparr> ParcelOptions.env :=
          (ParcelOptions.env sampleParcelOptions)(''toString'' := None) \<rparr>) Map.empty
     = (Inr ''toString:function toString() { [native code] }'', Map.empty)
   \<and> getInvalidationHash sampleHashString sampleHashFile sampleHashFromOption
      [\<lparr> RequestInvalidation.type = ''env'', filePath = '''', key = ''toString'' \<rparr>]
      (sampleParcelOptions\<lparr> ParcelOptions.env :=
          (ParcelOptions.env sampleParcelOptions)(''toString'' \<mapsto> '''') \<rparr>) Map.empty
     = (Inr ''toString:'', Map.empty)
   \<and> getInvalidationHash sampleHashString sampleHashFile sampleHashFromOption
      [\<lparr> RequestInvalidation.type = ''env'', filePath = '''', key = ''X'' \<rparr>,
       \<lparr> RequestInvalidation.type = ''option'', filePath = '''', key = ''env'' \<rparr>]
      (sampleParcelOptions\<lparr> ParcelOptions.env :=
          (ParcelOptions.env sampleParcelOptions)(''X'' := None) \<rparr>) Map.empty
     = (Inr ''X:env:{}'', Map.empty)
   \<and> getInvalidationHash sampleHashString sampleHashFile sampleHashFromOption
      [\<lparr> RequestInvalidation.type = ''env'', filePath = '''', key = ''X'' \<rparr>,
       \<lparr> RequestInvalidation.type = ''option'', filePath = '''', key = ''env'' \<rparr>]
      (sampleParcelOptions\<lparr> ParcelOptions.env :=
          (ParcelOptions.env sampleParcelOptions)(''X'' \<mapsto> '''') \<rparr>) Map.empty
     = (Inr ''X:env:{X:}'', Map.empty)"
  by (simp add: getInvalidationHash_def array_sort_def compareInvalidations_def
      getInvalidationId_def sampleParcelOptions_def sampleHashFromOption_def
      sampleHashString_def envProperty_def optionProperty_def objectPrototype_def)

section \<open>Properties of the CSS transformer's message loop\<close>

lemma invalidateFiles_fs [simp]: "fs (invalidateFiles normalizePath files asset) = fs asset"
  by (induction files arbitrary: asset) (simp_all add: invalidateOnFileChange_def)


lemma invalidateFiles_create [simp]:
  "fileCreateInvalidations (invalidateFiles normalizePath files asset) = fileCreateInvalidations asset"
  by (induction files arbitrary: asset) (simp_all add: invalidateOnFileChange_def)

lemma transformMessages_fs [simp]:
  "fs (snd (transformMessages globFiles normalizePath messages asset)) = fs asset"
  by (induction messages arbitrary: asset)
     (simp_all add: invalidateOnFileChange_def invalidateOnFileCreate_def Let_def split: sum.splits)


lemma afterMessage_fs [simp]: "fs (afterMessage globFiles normalizePath m asset) = fs asset"
  by (simp add: afterMessage_def invalidateOnFileChange_def invalidateOnFileCreate_def
      split: sum.splits)







section \<open>Properties of symbol resolution\<close>

lemma soundAt_NotFound:
  "(a, s) = origin \<or> leavesBoundary boundary a \<Longrightarrow> soundAt graph boundary origin (a, s, NotFound)"
  by (simp add: soundAt_def)

lemma soundAt_BailOut:
  "getAsset graph a = Some n \<Longrightarrow> GraphAsset.symbols n = None
    \<Longrightarrow> (a, s) = origin \<or> \<not> leavesBoundary boundary a
    \<Longrightarrow> soundAt graph boundary origin (a, s, BailOut)"
  by (simp add: soundAt_def cleared_def)

lemma soundAt_Resolved:
  "getAsset graph a = Some n \<Longrightarrow> GraphAsset.symbols n = Some exports \<Longrightarrow> exports s = Some l
    \<Longrightarrow> (a, s) = origin \<or> \<not> leavesBoundary boundary a
    \<Longrightarrow> soundAt graph boundary origin (a, s, Resolved l)"
  by (simp add: soundAt_def declares_def)

lemma soundAt_Skipped:
  "getAsset graph a = Some n \<Longrightarrow> GraphAsset.symbols n = Some exports \<Longrightarrow> exports s = None
    \<Longrightarrow> reexportSkipped n s \<Longrightarrow> (a, s) = origin \<or> \<not> leavesBoundary boundary a
    \<Longrightarrow> soundAt graph boundary origin (a, s, Skipped)"
  by (simp add: soundAt_def excluded_def)

lemma resolveFrom_look:
  assumes "(a, s) \<notin> set visited" and "\<not> ((a, s) \<noteq> origin \<and> leavesBoundary boundary a)"
  shows "resolveFrom graph boundary origin visited ((a, s) # todo) =
    (case getAsset graph a of
       None \<Rightarrow> resolveFrom graph boundary origin ((a, s) # visited) todo
     | Some n \<Rightarrow>
         (case GraphAsset.symbols n of
            None \<Rightarrow> (a, s, BailOut)
          | Some exports \<Rightarrow>
              (case exports s of
                 Some l \<Rightarrow> (a, s, Resolved l)
               | None \<Rightarrow>
                   if reexportSkipped n s then (a, s, Skipped)
                   else resolveFrom graph boundary origin ((a, s) # visited)
                          (reexportTargets n s @ todo))))"
  by (simp only: resolveFrom.simps assms if_False)

lemma resolveFrom_sound:
  "soundAt graph boundary origin (resolveFrom graph boundary origin visited todo)"
proof (induction graph boundary origin visited todo rule: resolveFrom.induct)
  case (1 graph boundary origin visited)
  show ?case by (simp add: soundAt_NotFound)
next
  case (2 graph boundary origin visited a s todo)
  show ?case
  proof (cases "(a, s) \<in> set visited")
    case True
    then show ?thesis using "2.IH"(1) by simp
  next
    case nv: False
    show ?thesis
    proof (cases "(a, s) \<noteq> origin \<and> leavesBoundary boundary a")
      case True
      then show ?thesis using nv by (simp add: soundAt_NotFound)
    next
      case inside: False
      then have ok: "(a, s) = origin \<or> \<not> leavesBoundary boundary a" by blast
      note step = resolveFrom_look [OF nv inside]
      show ?thesis
      proof (cases "getAsset graph a")
        case None
        then show ?thesis using "2.IH"(2) [OF nv inside None] by (simp add: step del: resolveFrom.simps)
      next
        case n: (Some n)
        show ?thesis
        proof (cases "GraphAsset.symbols n")
          case None
          then show ?thesis using soundAt_BailOut [OF n None ok] by (simp add: step n del: resolveFrom.simps)
        next
          case exports: (Some exports)
          show ?thesis
          proof (cases "exports s")
            case (Some l)
            then show ?thesis
              using soundAt_Resolved [OF n exports Some ok] by (simp add: step n exports del: resolveFrom.simps)
          next
            case None
            show ?thesis
            proof (cases "reexportSkipped n s")
              case True
              then show ?thesis
                using soundAt_Skipped [OF n exports None True ok] by (simp add: step n exports None del: resolveFrom.simps)
            next
              case False
              from "2.IH"(3) [OF nv inside n exports None False]
              show ?thesis
                by (simp add: step n exports None False del: resolveFrom.simps)
            qed
          qed
        qed
      qed
    qed
  qed
qed

lemma resolveSymbol_cleared:
  "cleared graph a \<Longrightarrow> resolveSymbol graph a s boundary
     = \<lparr> asset' = a, exportSymbol = s, symbol = JSNull \<rparr>"
  by (auto simp: resolveSymbol_def cleared_def split: option.splits)

lemma resolveSymbol_declares:
  "declares graph a s l \<Longrightarrow> resolveSymbol graph a s boundary
     = \<lparr> asset' = a, exportSymbol = s, symbol = JSSymbol l \<rparr>"
  by (auto simp: resolveSymbol_def declares_def split: option.splits)

lemma resolveSymbol_excluded:
  "excluded graph a s \<Longrightarrow> resolveSymbol graph a s boundary
     = \<lparr> asset' = a, exportSymbol = s, symbol = JSFalse \<rparr>"
  by (auto simp: resolveSymbol_def excluded_def split: option.splits)

lemma resolveSymbol_no_targets:
  "forwards graph a s = Some [] \<Longrightarrow> resolveSymbol graph a s boundary
     = \<lparr> asset' = a, exportSymbol = s, symbol = JSUndefined \<rparr>"
  by (auto simp: resolveSymbol_def forwards_def split: option.splits if_splits)

lemma resolveSymbol_leaves:
  "forwards graph a s = Some ((t, s') # rest) \<Longrightarrow> (t, s') \<noteq> (a, s) \<Longrightarrow> leavesBoundary boundary t
    \<Longrightarrow> resolveSymbol graph a s boundary
     = \<lparr> asset' = t, exportSymbol = s', symbol = JSUndefined \<rparr>"
  by (auto simp: resolveSymbol_def forwards_def split: option.splits if_splits)

lemma forwards_look:
  "getAsset graph a = Some n \<Longrightarrow> GraphAsset.symbols n = Some exports \<Longrightarrow> exports s = None
    \<Longrightarrow> \<not> reexportSkipped n s \<Longrightarrow> forwards graph a s = Some (reexportTargets n s)"
  by (simp add: forwards_def)

lemma forwards_absent:
  "getAsset graph a = None \<Longrightarrow> forwards graph a s = Some []"
  by (simp add: forwards_def)

lemma forwards_None:
  "forwards graph a s = None \<longleftrightarrow> cleared graph a \<or> (\<exists>l. declares graph a s l) \<or> excluded graph a s"
  by (auto simp: forwards_def cleared_def declares_def excluded_def split: option.splits)

lemma cleared_not_declares: "cleared graph a \<Longrightarrow> \<not> declares graph a s l"
  by (auto simp: cleared_def declares_def split: option.splits)

lemma cleared_not_excluded: "cleared graph a \<Longrightarrow> \<not> excluded graph a s"
  by (auto simp: cleared_def excluded_def split: option.splits)

lemma declares_not_excluded: "declares graph a s l \<Longrightarrow> \<not> excluded graph a s"
  by (auto simp: declares_def excluded_def split: option.splits)

lemma declares_unique: "declares graph a s l \<Longrightarrow> declares graph a s l' \<Longrightarrow> l = l'"
  by (auto simp: declares_def split: option.splits)

lemma resolveFrom_reaches:
  assumes "\<forall>q\<in>set todo. reaches graph boundary origin q"
  shows "reaches graph boundary origin
           (fst (resolveFrom graph boundary origin visited todo),
            fst (snd (resolveFrom graph boundary origin visited todo)))"
  using assms
proof (induction graph boundary origin visited todo rule: resolveFrom.induct)
  case (1 graph boundary origin visited)
  then show ?case by (simp add: reaches.start)
next
  case (2 graph boundary origin visited a s todo)
  have here: "reaches graph boundary origin (a, s)"
    and rest: "\<forall>q\<in>set todo. reaches graph boundary origin q"
    using "2.prems" by simp_all
  show ?case
  proof (cases "(a, s) \<in> set visited")
    case True
    then show ?thesis using "2.IH"(1) rest by simp
  next
    case nv: False
    show ?thesis
    proof (cases "(a, s) \<noteq> origin \<and> leavesBoundary boundary a")
      case True
      then show ?thesis using nv here by simp
    next
      case inside: False
      then have ok: "(a, s) = origin \<or> \<not> leavesBoundary boundary a" by blast
      note step = resolveFrom_look [OF nv inside]
      show ?thesis
      proof (cases "getAsset graph a")
        case None
        then show ?thesis
          using "2.IH"(2) [OF nv inside None rest] by (simp add: step del: resolveFrom.simps)
      next
        case n: (Some n)
        show ?thesis
        proof (cases "GraphAsset.symbols n")
          case None
          then show ?thesis using here by (simp add: step n del: resolveFrom.simps)
        next
          case exports: (Some exports)
          show ?thesis
          proof (cases "exports s")
            case (Some l)
            then show ?thesis using here by (simp add: step n exports del: resolveFrom.simps)
          next
            case None
            show ?thesis
            proof (cases "reexportSkipped n s")
              case True
              then show ?thesis
                using here by (simp add: step n exports None del: resolveFrom.simps)
            next
              case False
              have "\<forall>q\<in>set (reexportTargets n s @ todo). reaches graph boundary origin q"
                using rest reaches.follow [OF here ok forwards_look [OF n exports None False]]
                by auto
              from "2.IH"(3) [OF nv inside n exports None False this]
              show ?thesis
                by (simp add: step n exports None False del: resolveFrom.simps)
            qed
          qed
        qed
      qed
    qed
  qed
qed

lemma visitedClosedD:
  assumes "visitedClosed graph boundary origin visited todo" and "q \<in> set visited"
  shows "q = origin \<or> \<not> leavesBoundary boundary (fst q)"
    and "\<exists>targets. forwards graph (fst q) (snd q) = Some targets
           \<and> set targets \<subseteq> set visited \<union> set todo"
proof -
  from assms have both: "(q = origin \<or> \<not> leavesBoundary boundary (fst q))
       \<and> (case forwards graph (fst q) (snd q) of
            None \<Rightarrow> False
          | Some targets \<Rightarrow> set targets \<subseteq> set visited \<union> set todo)"
    unfolding visitedClosed_def by (rule bspec)
  then show "q = origin \<or> \<not> leavesBoundary boundary (fst q)" by (rule conjunct1)
  from both show "\<exists>targets. forwards graph (fst q) (snd q) = Some targets
           \<and> set targets \<subseteq> set visited \<union> set todo"
    by (cases "forwards graph (fst q) (snd q)") simp_all
qed

lemma visitedClosedI:
  assumes "\<And>q. q \<in> set visited \<Longrightarrow> q = origin \<or> \<not> leavesBoundary boundary (fst q)"
    and "\<And>q. q \<in> set visited \<Longrightarrow> \<exists>targets. forwards graph (fst q) (snd q) = Some targets
           \<and> set targets \<subseteq> set visited \<union> set todo"
  shows "visitedClosed graph boundary origin visited todo"
  unfolding visitedClosed_def
proof (intro ballI conjI)
  fix q assume q: "q \<in> set visited"
  show "q = origin \<or> \<not> leavesBoundary boundary (fst q)" by (rule assms(1) [OF q])
  from assms(2) [OF q] obtain targets where "forwards graph (fst q) (snd q) = Some targets"
    "set targets \<subseteq> set visited \<union> set todo" by blast
  then show "case forwards graph (fst q) (snd q) of None \<Rightarrow> False
          | Some targets \<Rightarrow> set targets \<subseteq> set visited \<union> set todo" by simp
qed

lemma visitedClosed_skip:
  assumes inv: "visitedClosed graph boundary origin visited (p # todo)" and p: "p \<in> set visited"
  shows "visitedClosed graph boundary origin visited todo"
proof (rule visitedClosedI)
  fix q assume q: "q \<in> set visited"
  show "q = origin \<or> \<not> leavesBoundary boundary (fst q)" by (rule visitedClosedD(1) [OF inv q])
  from visitedClosedD(2) [OF inv q] obtain targets
    where t: "forwards graph (fst q) (snd q) = Some targets"
      "set targets \<subseteq> set visited \<union> set (p # todo)" by blast
  have "set targets \<subseteq> set visited \<union> set todo" using t(2) p by auto
  then show "\<exists>targets. forwards graph (fst q) (snd q) = Some targets
           \<and> set targets \<subseteq> set visited \<union> set todo" using t(1) by blast
qed

lemma visitedClosed_push:
  assumes inv: "visitedClosed graph boundary origin visited ((a, s) # todo)"
    and ok: "(a, s) = origin \<or> \<not> leavesBoundary boundary a"
    and fw: "forwards graph a s = Some targets"
  shows "visitedClosed graph boundary origin ((a, s) # visited) (targets @ todo)"
proof (rule visitedClosedI)
  fix q assume q: "q \<in> set ((a, s) # visited)"
  show "q = origin \<or> \<not> leavesBoundary boundary (fst q)"
  proof (cases "q = (a, s)")
    case True
    then show ?thesis using ok by simp
  next
    case False
    then have "q \<in> set visited" using q by simp
    then show ?thesis by (rule visitedClosedD(1) [OF inv])
  qed
  show "\<exists>ts. forwards graph (fst q) (snd q) = Some ts
           \<and> set ts \<subseteq> set ((a, s) # visited) \<union> set (targets @ todo)"
  proof (cases "q = (a, s)")
    case True
    then show ?thesis using fw by auto
  next
    case False
    then have "q \<in> set visited" using q by simp
    from visitedClosedD(2) [OF inv this] obtain ts
      where t: "forwards graph (fst q) (snd q) = Some ts"
        "set ts \<subseteq> set visited \<union> set ((a, s) # todo)" by blast
    have "set ts \<subseteq> set ((a, s) # visited) \<union> set (targets @ todo)" using t(2) by auto
    then show ?thesis using t(1) by blast
  qed
qed

lemma visitedClosed_reaches:
  assumes inv: "visitedClosed graph boundary origin visited []" and "origin \<in> set visited"
    and "reaches graph boundary origin q"
  shows "q \<in> set visited"
  using assms(3)
proof (induction rule: reaches.induct)
  case start
  show ?case by (rule assms(2))
next
  case (follow a s targets q)
  from visitedClosedD(2) [OF inv follow.IH] obtain ts
    where "forwards graph a s = Some ts" "set ts \<subseteq> set visited" by auto
  then show ?case using follow.hyps(3,4) by auto
qed

lemma resolveFrom_exhausted:
  assumes "visitedClosed graph boundary origin visited todo"
    and "origin \<in> set visited \<union> set todo"
    and "resolveFrom graph boundary origin visited todo = (fst origin, snd origin, NotFound)"
    and "reaches graph boundary origin q"
  shows "forwards graph (fst q) (snd q) \<noteq> None"
  using assms
proof (induction graph boundary origin visited todo rule: resolveFrom.induct)
  case (1 graph boundary origin visited)
  then have "q \<in> set visited"
    using visitedClosed_reaches [of graph boundary origin visited q] by simp
  from visitedClosedD(2) [OF "1.prems"(1) this] show ?case by auto
next
  case (2 graph boundary origin visited a s todo)
  note inv = "2.prems"(1) and mem = "2.prems"(2) and res = "2.prems"(3) and rq = "2.prems"(4)
  show ?case
  proof (cases "(a, s) \<in> set visited")
    case True
    have "origin \<in> set visited \<union> set todo" using mem True by auto
    from "2.IH"(1) [OF True visitedClosed_skip [OF inv True] this _ rq]
    show ?thesis using res True by simp
  next
    case nv: False
    show ?thesis
    proof (cases "(a, s) \<noteq> origin \<and> leavesBoundary boundary a")
      case True
      then show ?thesis using nv res by (auto simp: prod_eq_iff)
    next
      case inside: False
      then have ok: "(a, s) = origin \<or> \<not> leavesBoundary boundary a" by blast
      note step = resolveFrom_look [OF nv inside]
      have mem': "origin \<in> set ((a, s) # visited) \<union> set (ts @ todo)" for ts
        using mem by auto
      show ?thesis
      proof (cases "getAsset graph a")
        case None
        have inv': "visitedClosed graph boundary origin ((a, s) # visited) ([] @ todo)"
          by (rule visitedClosed_push [OF inv ok forwards_absent [OF None]])
        have "resolveFrom graph boundary origin ((a, s) # visited) todo
            = (fst origin, snd origin, NotFound)"
          using res by (simp add: step None del: resolveFrom.simps)
        from "2.IH"(2) [OF nv inside None _ _ this rq] inv' mem' [of "[]"]
        show ?thesis by simp
      next
        case n: (Some n)
        show ?thesis
        proof (cases "GraphAsset.symbols n")
          case None
          then show ?thesis using res by (simp add: step n del: resolveFrom.simps)
        next
          case exports: (Some exports)
          show ?thesis
          proof (cases "exports s")
            case (Some l)
            then show ?thesis using res by (simp add: step n exports del: resolveFrom.simps)
          next
            case None
            show ?thesis
            proof (cases "reexportSkipped n s")
              case True
              then show ?thesis
                using res by (simp add: step n exports None del: resolveFrom.simps)
            next
              case False
              have inv': "visitedClosed graph boundary origin ((a, s) # visited)
                  (reexportTargets n s @ todo)"
                by (rule visitedClosed_push [OF inv ok forwards_look [OF n exports None False]])
              have "resolveFrom graph boundary origin ((a, s) # visited) (reexportTargets n s @ todo)
                  = (fst origin, snd origin, NotFound)"
                using res by (simp add: step n exports None False del: resolveFrom.simps)
              from "2.IH"(3) [OF nv inside n exports None False inv' mem' this rq]
              show ?thesis .
            qed
          qed
        qed
      qed
    qed
  qed
qed


text \<open>
  Claim C6. The \<open>symbol\<close> field of the result of \<open>resolveSymbol\<close> tells the four
  outcomes apart. At the queried asset: a cleared export table gives \<open>null\<close>, an entry of
  the table gives its binding, an excluded re-export gives \<open>false\<close>, no re-export gives
  \<open>undefined\<close>, and a first re-export target outside the boundary gives \<open>undefined\<close>
  with that target as the asset of the result. For every query: the field is \<open>null\<close>
  exactly when the traversal looked at the result's asset and its table is cleared, a
  symbol exactly when it looked at it and the table binds the name to that symbol,
  \<open>false\<close> exactly when it looked at it and the re-export is excluded, and \<open>undefined\<close>
  exactly when the result's pair is a re-export target outside the boundary, or is the
  queried pair and nothing is declared, cleared or excluded there; so a result outside
  the boundary has \<open>undefined\<close> and names the asset reached. The result's pair is reached
  from the queried pair through re-exports, and when the symbol is not found at the
  queried pair, no pair reached has a cleared table, a declaration or an excluded
  re-export.
\<close>

theorem resolveSymbol_outcomes:
  "(cleared graph a \<longrightarrow> resolveSymbol graph a s boundary
       = \<lparr> asset' = a, exportSymbol = s, symbol = JSNull \<rparr>)
   \<and> (declares graph a s l \<longrightarrow> resolveSymbol graph a s boundary
       = \<lparr> asset' = a, exportSymbol = s, symbol = JSSymbol l \<rparr>)
   \<and> (excluded graph a s \<longrightarrow> resolveSymbol graph a s boundary
       = \<lparr> asset' = a, exportSymbol = s, symbol = JSFalse \<rparr>)
   \<and> (forwards graph a s = Some [] \<longrightarrow> resolveSymbol graph a s boundary
       = \<lparr> asset' = a, exportSymbol = s, symbol = JSUndefined \<rparr>)
   \<and> (forwards graph a s = Some ((t, s') # rest) \<and> (t, s') \<noteq> (a, s) \<and> leavesBoundary boundary t
        \<longrightarrow> resolveSymbol graph a s boundary
          = \<lparr> asset' = t, exportSymbol = s', symbol = JSUndefined \<rparr>)
   \<and> (symbol (resolveSymbol graph a s boundary) = JSNull
        \<longleftrightarrow> cleared graph (asset' (resolveSymbol graph a s boundary))
            \<and> ((asset' (resolveSymbol graph a s boundary),
                 exportSymbol (resolveSymbol graph a s boundary)) = (a, s)
               \<or> \<not> leavesBoundary boundary (asset' (resolveSymbol graph a s boundary))))
   \<and> (symbol (resolveSymbol graph a s boundary) = JSSymbol l
        \<longleftrightarrow> declares graph (asset' (resolveSymbol graph a s boundary))
              (exportSymbol (resolveSymbol graph a s boundary)) l
            \<and> ((asset' (resolveSymbol graph a s boundary),
                 exportSymbol (resolveSymbol graph a s boundary)) = (a, s)
               \<or> \<not> leavesBoundary boundary (asset' (resolveSymbol graph a s boundary))))
   \<and> (symbol (resolveSymbol graph a s boundary) = JSFalse
        \<longleftrightarrow> excluded graph (asset' (resolveSymbol graph a s boundary))
              (exportSymbol (resolveSymbol graph a s boundary))
            \<and> ((asset' (resolveSymbol graph a s boundary),
                 exportSymbol (resolveSymbol graph a s boundary)) = (a, s)
               \<or> \<not> leavesBoundary boundary (asset' (resolveSymbol graph a s boundary))))
   \<and> (symbol (resolveSymbol graph a s boundary) = JSUndefined
        \<longleftrightarrow> ((asset' (resolveSymbol graph a s boundary),
              exportSymbol (resolveSymbol graph a s boundary)) \<noteq> (a, s)
             \<and> leavesBoundary boundary (asset' (resolveSymbol graph a s boundary)))
            \<or> ((asset' (resolveSymbol graph a s boundary),
                 exportSymbol (resolveSymbol graph a s boundary)) = (a, s)
               \<and> forwards graph a s \<noteq> None))
   \<and> reaches graph boundary (a, s)
        (asset' (resolveSymbol graph a s boundary), exportSymbol (resolveSymbol graph a s boundary))
   \<and> (symbol (resolveSymbol graph a s boundary) = JSUndefined
        \<and> (asset' (resolveSymbol graph a s boundary),
            exportSymbol (resolveSymbol graph a s boundary)) = (a, s)
        \<longrightarrow> (\<forall>q. reaches graph boundary (a, s) q \<longrightarrow> forwards graph (fst q) (snd q) \<noteq> None))"
proof -
  obtain b u outcome where r: "resolveFrom graph boundary (a, s) [] [(a, s)] = (b, u, outcome)"
    by (cases "resolveFrom graph boundary (a, s) [] [(a, s)]")
  have res: "resolveSymbol graph a s boundary
      = \<lparr> asset' = b, exportSymbol = u, symbol = sentinel outcome \<rparr>"
    using r by (simp add: resolveSymbol_def)
  have snd: "soundAt graph boundary (a, s) (b, u, outcome)"
    using resolveFrom_sound [of graph boundary "(a, s)" "[]" "[(a, s)]"] r by simp
  have f1: "cleared graph a \<Longrightarrow> b = a \<and> u = s \<and> outcome = BailOut"
    using resolveSymbol_cleared [of graph a s boundary] res by (cases outcome) simp_all
  have f2: "declares graph a s k \<Longrightarrow> b = a \<and> u = s \<and> outcome = Resolved k" for k
    using resolveSymbol_declares [of graph a s k boundary] res by (cases outcome) simp_all
  have f3: "excluded graph a s \<Longrightarrow> b = a \<and> u = s \<and> outcome = Skipped"
    using resolveSymbol_excluded [of graph a s boundary] res by (cases outcome) simp_all
  have c1: "cleared graph a \<longrightarrow> resolveSymbol graph a s boundary
       = \<lparr> asset' = a, exportSymbol = s, symbol = JSNull \<rparr>"
    by (simp add: resolveSymbol_cleared)
  have c2: "declares graph a s l \<longrightarrow> resolveSymbol graph a s boundary
       = \<lparr> asset' = a, exportSymbol = s, symbol = JSSymbol l \<rparr>"
    by (simp add: resolveSymbol_declares)
  have c3: "excluded graph a s \<longrightarrow> resolveSymbol graph a s boundary
       = \<lparr> asset' = a, exportSymbol = s, symbol = JSFalse \<rparr>"
    by (simp add: resolveSymbol_excluded)
  have c4: "forwards graph a s = Some [] \<longrightarrow> resolveSymbol graph a s boundary
       = \<lparr> asset' = a, exportSymbol = s, symbol = JSUndefined \<rparr>"
    by (simp add: resolveSymbol_no_targets)
  have c5: "forwards graph a s = Some ((t, s') # rest) \<and> (t, s') \<noteq> (a, s) \<and> leavesBoundary boundary t
        \<longrightarrow> resolveSymbol graph a s boundary
          = \<lparr> asset' = t, exportSymbol = s', symbol = JSUndefined \<rparr>"
    using resolveSymbol_leaves [of graph a s t s' rest boundary] by blast
  have c6: "sentinel outcome = JSNull
        \<longleftrightarrow> cleared graph b \<and> ((b, u) = (a, s) \<or> \<not> leavesBoundary boundary b)"
  proof (cases outcome)
    case (Resolved k)
    then show ?thesis using snd cleared_not_declares [of graph b u k] by (auto simp: soundAt_def)
  next
    case BailOut
    then show ?thesis using snd by (simp add: soundAt_def)
  next
    case NotFound
    then show ?thesis using snd f1 by (auto simp: soundAt_def)
  next
    case Skipped
    then show ?thesis using snd cleared_not_excluded [of graph b u] by (auto simp: soundAt_def)
  qed
  have c7: "sentinel outcome = JSSymbol l
        \<longleftrightarrow> declares graph b u l \<and> ((b, u) = (a, s) \<or> \<not> leavesBoundary boundary b)"
  proof (cases outcome)
    case (Resolved k)
    then show ?thesis using snd declares_unique [of graph b u k l] by (auto simp: soundAt_def)
  next
    case BailOut
    then show ?thesis using snd cleared_not_declares [of graph b u l] by (auto simp: soundAt_def)
  next
    case NotFound
    then show ?thesis using snd f2 [of l] by (auto simp: soundAt_def)
  next
    case Skipped
    then show ?thesis using snd declares_not_excluded [of graph b u l] by (auto simp: soundAt_def)
  qed
  have c8: "sentinel outcome = JSFalse
        \<longleftrightarrow> excluded graph b u \<and> ((b, u) = (a, s) \<or> \<not> leavesBoundary boundary b)"
  proof (cases outcome)
    case (Resolved k)
    then show ?thesis using snd declares_not_excluded [of graph b u k] by (auto simp: soundAt_def)
  next
    case BailOut
    then show ?thesis using snd cleared_not_excluded [of graph b u] by (auto simp: soundAt_def)
  next
    case NotFound
    then show ?thesis using snd f3 by (auto simp: soundAt_def)
  next
    case Skipped
    then show ?thesis using snd by (simp add: soundAt_def)
  qed
  have c9: "sentinel outcome = JSUndefined
        \<longleftrightarrow> ((b, u) \<noteq> (a, s) \<and> leavesBoundary boundary b)
            \<or> ((b, u) = (a, s) \<and> forwards graph a s \<noteq> None)"
  proof (cases outcome)
    case (Resolved k)
    then show ?thesis using snd by (auto simp: soundAt_def forwards_None)
  next
    case BailOut
    then show ?thesis using snd by (auto simp: soundAt_def forwards_None)
  next
    case NotFound
    then show ?thesis using snd f1 f2 f3 by (auto simp: soundAt_def forwards_None)
  next
    case Skipped
    then show ?thesis using snd by (auto simp: soundAt_def forwards_None)
  qed
  have "\<forall>q\<in>set [(a, s)]. reaches graph boundary (a, s) q"
    by (simp add: reaches.start)
  then have c10: "reaches graph boundary (a, s) (b, u)"
    using resolveFrom_reaches [of "[(a, s)]" graph boundary "(a, s)" "[]"] r by simp
  have c11: "sentinel outcome = JSUndefined \<and> (b, u) = (a, s)
        \<longrightarrow> (\<forall>q. reaches graph boundary (a, s) q \<longrightarrow> forwards graph (fst q) (snd q) \<noteq> None)"
  proof (intro impI allI)
    fix q assume h: "sentinel outcome = JSUndefined \<and> (b, u) = (a, s)"
      and rq: "reaches graph boundary (a, s) q"
    have nf: "outcome = NotFound" using h by (cases outcome) simp_all
    have inv: "visitedClosed graph boundary (a, s) [] [(a, s)]"
      by (simp add: visitedClosed_def)
    have "resolveFrom graph boundary (a, s) [] [(a, s)] = (fst (a, s), snd (a, s), NotFound)"
      using r h nf by simp
    from resolveFrom_exhausted [OF inv _ this rq]
    show "forwards graph (fst q) (snd q) \<noteq> None" by simp
  qed
  show ?thesis
    unfolding res using c1 [unfolded res] c2 [unfolded res] c3 [unfolded res] c4 [unfolded res]
      c5 [unfolded res] c6 c7 c8 c9 c10 c11
    by (simp only: SymbolResolution.simps)
qed


theorem resolveSymbol_outcomes_witness:
  "cleared sampleGraph ''D''
   \<and> resolveSymbol sampleGraph ''D'' ''w'' (Some [''A'', ''B''])
       = \<lparr> asset' = ''D'', exportSymbol = ''w'', symbol = JSNull \<rparr>
   \<and> declares sampleGraph ''C'' ''y'' ''y1''
   \<and> resolveSymbol sampleGraph ''C'' ''y'' (Some [''A'', ''B''])
       = \<lparr> asset' = ''C'', exportSymbol = ''y'', symbol = JSSymbol ''y1'' \<rparr>
   \<and> excluded sampleGraph ''E'' ''z''
   \<and> resolveSymbol sampleGraph ''E'' ''z'' None
       = \<lparr> asset' = ''E'', exportSymbol = ''z'', symbol = JSFalse \<rparr>
   \<and> forwards sampleGraph ''C'' ''x'' = Some []
   \<and> resolveSymbol sampleGraph ''C'' ''x'' None
       = \<lparr> asset' = ''C'', exportSymbol = ''x'', symbol = JSUndefined \<rparr>
   \<and> forwards sampleGraph ''B'' ''x'' = Some [(''C'', ''y'')]
   \<and> leavesBoundary (Some [''A'', ''B'']) ''C''
   \<and> resolveSymbol sampleGraph ''B'' ''x'' (Some [''A'', ''B''])
       = \<lparr> asset' = ''C'', exportSymbol = ''y'', symbol = JSUndefined \<rparr>
   \<and> resolveSymbol sampleGraph ''A'' ''x'' (Some [''A'', ''B''])
       = \<lparr> asset' = ''C'', exportSymbol = ''y'', symbol = JSUndefined \<rparr>
   \<and> resolveSymbol sampleGraph ''A'' ''x'' None
       = \<lparr> asset' = ''C'', exportSymbol = ''y'', symbol = JSSymbol ''y1'' \<rparr>
   \<and> resolveSymbol sampleGraph ''A'' ''w'' None
       = \<lparr> asset' = ''D'', exportSymbol = ''w'', symbol = JSNull \<rparr>
   \<and> resolveSymbol sampleGraph ''F'' ''q'' None
       = \<lparr> asset' = ''F'', exportSymbol = ''q'', symbol = JSUndefined \<rparr>
   \<and> reaches sampleGraph None (''F'', ''q'') (''F'', ''q'')
   \<and> forwards sampleGraph ''F'' ''q'' \<noteq> None"
proof -
  note defs = cleared_def declares_def excluded_def forwards_def sampleGraph_def getAsset_def
    leavesBoundary_def reexportSkipped_def reexportTargets_def reexports_def
  have h1: "cleared sampleGraph ''D''"
    by (simp add: defs)
  have h2: "declares sampleGraph ''C'' ''y'' ''y1''"
    by (simp add: defs)
  have h3: "excluded sampleGraph ''E'' ''z''"
    by (simp add: defs)
  have h4: "forwards sampleGraph ''C'' ''x'' = Some []"
    by (simp add: defs)
  have h5: "forwards sampleGraph ''B'' ''x'' = Some ((''C'', ''y'') # [])
      \<and> (''C'', ''y'') \<noteq> (''B'', ''x'') \<and> leavesBoundary (Some [''A'', ''B'']) ''C''"
    by (simp add: defs)
  have r1: "resolveSymbol sampleGraph ''A'' ''x'' (Some [''A'', ''B''])
       = \<lparr> asset' = ''C'', exportSymbol = ''y'', symbol = JSUndefined \<rparr>"
    by (simp add: resolveSymbol_def defs)
  have r2: "resolveSymbol sampleGraph ''A'' ''x'' None
       = \<lparr> asset' = ''C'', exportSymbol = ''y'', symbol = JSSymbol ''y1'' \<rparr>"
    by (simp add: resolveSymbol_def defs)
  have r3: "resolveSymbol sampleGraph ''A'' ''w'' None
       = \<lparr> asset' = ''D'', exportSymbol = ''w'', symbol = JSNull \<rparr>"
    by (simp add: resolveSymbol_def defs)
  have r4: "resolveSymbol sampleGraph ''F'' ''q'' None
       = \<lparr> asset' = ''F'', exportSymbol = ''q'', symbol = JSUndefined \<rparr>"
    by (simp add: resolveSymbol_def defs)
  have t1: "resolveSymbol sampleGraph ''D'' ''w'' (Some [''A'', ''B''])
       = \<lparr> asset' = ''D'', exportSymbol = ''w'', symbol = JSNull \<rparr>"
    using resolveSymbol_outcomes [of sampleGraph "''D''" "''w''" "Some [''A'', ''B'']"] h1 by blast
  have t2: "resolveSymbol sampleGraph ''C'' ''y'' (Some [''A'', ''B''])
       = \<lparr> asset' = ''C'', exportSymbol = ''y'', symbol = JSSymbol ''y1'' \<rparr>"
    using resolveSymbol_outcomes [of sampleGraph "''C''" "''y''" "Some [''A'', ''B'']" "''y1''"] h2
    by blast
  have t3: "resolveSymbol sampleGraph ''E'' ''z'' None
       = \<lparr> asset' = ''E'', exportSymbol = ''z'', symbol = JSFalse \<rparr>"
    using resolveSymbol_outcomes [of sampleGraph "''E''" "''z''" None] h3 by blast
  have t4: "resolveSymbol sampleGraph ''C'' ''x'' None
       = \<lparr> asset' = ''C'', exportSymbol = ''x'', symbol = JSUndefined \<rparr>"
    using resolveSymbol_outcomes [of sampleGraph "''C''" "''x''" None] h4 by blast
  have t5: "resolveSymbol sampleGraph ''B'' ''x'' (Some [''A'', ''B''])
       = \<lparr> asset' = ''C'', exportSymbol = ''y'', symbol = JSUndefined \<rparr>"
    using resolveSymbol_outcomes [of sampleGraph "''B''" "''x''" "Some [''A'', ''B'']" _
        "''C''" "''y''" "[]"] h5
    by blast
  have t6: "reaches sampleGraph None (''F'', ''q'') (''F'', ''q'')
      \<and> forwards sampleGraph ''F'' ''q'' \<noteq> None"
    using resolveSymbol_outcomes [of sampleGraph "''F''" "''q''" None] r4 by simp
  show ?thesis
    using h1 h2 h3 h4 h5 r1 r2 r3 r4 t1 t2 t3 t4 t5 t6 by simp
qed

end
